theory Spec2Isabelle
  imports Complex_Main "HOL-Library.Log_Nat"
begin

section \<open>The session controller of the Prophecies web client\<close>

text \<open>
  The development embeds the React components \<open>Cell\<close> and \<open>Grid\<close> of the client
  (the TypeScript file with \<open>MIN_PLAYOUTS_MS\<close>, \<open>PONDER_MS\<close> and \<open>PONDER_INTERVAL\<close>).
  The search engine \<open>wasm.WasmBot\<close> is a WebAssembly module that the client only calls;
  it is a parameter of every definition below (a record of its operations over an
  arbitrary engine state \<open>'e\<close>).  The older JavaScript variant of the client
  (\<open>www/index.js\<close>, with the pattern \<open>^[0-4X]{0,1}$\<close>) is not embedded.

  JavaScript objects are mutated in place.  The model passes the component explicitly:
  every method takes the component and returns it updated.  A method that can raise
  returns an \<open>outcome\<close>, which keeps the component as it was when the exception left
  the method.
\<close>

subsection \<open>Constants\<close>

definition HUMAN_PLAYER :: nat where
  "HUMAN_PLAYER = 0"

definition BOT_PLAYER :: nat where
  "BOT_PLAYER = 1"

definition MIN_PLAYOUTS_MS :: real where
  "MIN_PLAYOUTS_MS = 256"

definition PONDER_MS :: real where
  "PONDER_MS = 128"

definition PONDER_INTERVAL :: nat where
  "PONDER_INTERVAL = 1024"

subsection \<open>JavaScript numbers\<close>

text \<open>
  A JavaScript number is a double (IEEE 754 binary64).  The model keeps the kinds of
  value the controller can tell apart (a finite number, an infinity, \<open>NaN\<close>) and reads a
  finite double as the real number it stands for; the sign of a zero is not kept.  The
  readings of the clock stay real numbers, and an elapsed time is their exact difference.
\<close>

datatype number = NaN | PosInf | NegInf | Fin real

text \<open>
  The exponent of the binade of a real \<open>x \<noteq> 0\<close>: the \<open>k\<close> with
  \<open>2 ^ k \<le> \<bar>x\<bar> < 2 ^ (k + 1)\<close>, read off the bit length of an integer.
\<close>

definition binary_exponent :: "real \<Rightarrow> int" where
  "binary_exponent x =
     (if 1 \<le> \<bar>x\<bar> then bitlen \<lfloor>\<bar>x\<bar>\<rfloor> - 1 else - bitlen (\<lceil>1 / \<bar>x\<bar>\<rceil> - 1))"

text \<open>The nearest integer, a tie going to the even one.\<close>

definition round_half_even :: "real \<Rightarrow> int" where
  "round_half_even y =
     (let f = \<lfloor>y\<rfloor>
      in if y - of_int f < 1 / 2 then f
         else if 1 / 2 < y - of_int f then f + 1
         else if even f then f else f + 1)"

text \<open>
  The result of an arithmetic operation is its exact result rounded to the nearest
  double, a tie going to the even significand.  A finite double is \<open>m * 2 ^ e\<close> with
  \<open>\<bar>m\<bar> < 2 ^ 53\<close> and \<open>- 1074 \<le> e \<le> 971\<close>; around \<open>x\<close> the doubles are the multiples of
  \<open>2 ^ e\<close> for \<open>e\<close> the exponent of the binade less 52, and not less than \<open>- 1074\<close>.  A
  rounded magnitude of \<open>2 ^ 1024\<close> or more is an infinity.
\<close>

definition to_double :: "real \<Rightarrow> number" where
  "to_double x =
     (if x = 0 then Fin 0
      else let e = max (binary_exponent x - 52) (- 1074);
               y = of_int (round_half_even (x / 2 powi e)) * 2 powi e
           in if 2 ^ 1024 \<le> y then PosInf
              else if y \<le> - (2 ^ 1024) then NegInf
              else Fin y)"

text \<open>
  \<open>x / Number(n)\<close> for a count \<open>n\<close>.  \<open>Number(n)\<close> is the double nearest to \<open>n\<close>: it is
  never negative and never \<open>NaN\<close>, it is \<open>+0\<close> for 0 and \<open>Infinity\<close> for a count
  beyond the largest double.
\<close>

fun js_div_count :: "number \<Rightarrow> nat \<Rightarrow> number" where
  "js_div_count NaN n = NaN"
| "js_div_count PosInf n = (case to_double (real n) of PosInf \<Rightarrow> NaN | _ \<Rightarrow> PosInf)"
| "js_div_count NegInf n = (case to_double (real n) of PosInf \<Rightarrow> NaN | _ \<Rightarrow> NegInf)"
| "js_div_count (Fin x) n =
     (case to_double (real n) of
        Fin d \<Rightarrow>
          if d = 0 then (if x = 0 then NaN else if 0 < x then PosInf else NegInf)
          else to_double (x / d)
      | PosInf \<Rightarrow> Fin 0
      | _ \<Rightarrow> NaN)"

text \<open>\<open>1 + x\<close>.\<close>

fun js_one_plus :: "number \<Rightarrow> number" where
  "js_one_plus (Fin x) = to_double (1 + x)"
| "js_one_plus x = x"

text \<open>\<open>x / 2\<close>.\<close>

fun js_half :: "number \<Rightarrow> number" where
  "js_half (Fin x) = to_double (x / 2)"
| "js_half x = x"

subsection \<open>The regular expression \<open>legalActionRegex\<close>\<close>

text \<open>
  \<open>new RegExp("^X|[0-9]+$")\<close>.  In the ECMAScript grammar a pattern is a disjunction of
  alternatives and an alternative is a sequence of terms, so \<open>|\<close> binds weaker than the
  sequence and the pattern has the two alternatives \<open>^X\<close> and \<open>[0-9]+$\<close>.  The
  datatypes hold the terms this pattern uses, and the matcher is the backtracking matcher
  of the language: each term yields the positions at which it can end, the greedy choice
  first.  A position is the index into the input with the text that is left there.
\<close>

datatype atom = Lit char | Range char char

datatype item = AssertStart | AssertEnd | One atom | Plus atom

type_synonym alternative = "item list"

type_synonym disjunction = "alternative list"

fun atom_matches :: "atom \<Rightarrow> char \<Rightarrow> bool" where
  "atom_matches (Lit c) x = (x = c)"
| "atom_matches (Range lo hi) x =
     ((of_char lo :: nat) \<le> of_char x \<and> (of_char x :: nat) \<le> of_char hi)"

fun plus_ends :: "atom \<Rightarrow> nat \<Rightarrow> string \<Rightarrow> (nat \<times> string) list" where
  "plus_ends a i [] = []"
| "plus_ends a i (x # xs) =
     (if atom_matches a x then plus_ends a (Suc i) xs @ [(Suc i, xs)] else [])"

fun item_ends :: "item \<Rightarrow> nat \<times> string \<Rightarrow> (nat \<times> string) list" where
  "item_ends AssertStart (i, rest) = (if i = 0 then [(i, rest)] else [])"
| "item_ends AssertEnd (i, rest) = (if rest = [] then [(i, rest)] else [])"
| "item_ends (One a) (i, rest) =
     (case rest of [] \<Rightarrow> [] | x # xs \<Rightarrow> if atom_matches a x then [(Suc i, xs)] else [])"
| "item_ends (Plus a) (i, rest) = plus_ends a i rest"

fun alternative_ends :: "alternative \<Rightarrow> nat \<times> string \<Rightarrow> (nat \<times> string) list" where
  "alternative_ends [] st = [st]"
| "alternative_ends (t # ts) st = concat (map (alternative_ends ts) (item_ends t st))"

definition disjunction_ends :: "disjunction \<Rightarrow> nat \<times> string \<Rightarrow> (nat \<times> string) list" where
  "disjunction_ends d st = concat (map (\<lambda>a. alternative_ends a st) d)"

text \<open>
  \<open>RegExp.prototype.test\<close> of a pattern without the global and sticky flags: the match
  is tried at index 0, then 1, up to the length of the input.
\<close>

fun search_from :: "disjunction \<Rightarrow> nat \<Rightarrow> string \<Rightarrow> bool" where
  "search_from d i [] = (disjunction_ends d (i, []) \<noteq> [])"
| "search_from d i (x # xs) =
     (disjunction_ends d (i, x # xs) \<noteq> [] \<or> search_from d (Suc i) xs)"

definition regex_test :: "disjunction \<Rightarrow> string \<Rightarrow> bool" where
  "regex_test d s = search_from d 0 s"

definition legalActionRegex :: disjunction where
  "legalActionRegex =
     [[AssertStart, One (Lit CHR ''X'')],
      [Plus (Range CHR ''0'' CHR ''9''), AssertEnd]]"

subsection \<open>\<open>parseInt(s, 10)\<close>\<close>

text \<open>
  ECMAScript's \<open>parseInt\<close> with radix 10: leading white space is skipped, one sign is
  read, then the longest run of decimal digits; no digit gives \<open>NaN\<close>, and otherwise
  the result is the double nearest to the signed integer that the digits denote (the
  language lets an implementation read the digits after the twentieth as zeros; that
  leeway is not modelled).  Characters are code units below 256, of which these are white
  space.
\<close>

definition is_white_space :: "char \<Rightarrow> bool" where
  "is_white_space c =
     (c \<in> set [CHR 0x09, CHR 0x0A, CHR 0x0B, CHR 0x0C, CHR 0x0D, CHR 0x20, CHR 0xA0])"

definition is_digit :: "char \<Rightarrow> bool" where
  "is_digit c = atom_matches (Range CHR ''0'' CHR ''9'') c"

definition digit_of :: "char \<Rightarrow> nat" where
  "digit_of c = of_char c - 48"

fun digits_value :: "nat \<Rightarrow> string \<Rightarrow> nat" where
  "digits_value acc [] = acc"
| "digits_value acc (c # cs) = digits_value (10 * acc + digit_of c) cs"

definition parseInt10 :: "string \<Rightarrow> number" where
  "parseInt10 s =
     (let S = dropWhile is_white_space s;
          negative = (S \<noteq> [] \<and> hd S = CHR ''-'');
          S' = (if S \<noteq> [] \<and> (hd S = CHR ''+'' \<or> hd S = CHR ''-'') then tl S else S);
          Z = takeWhile is_digit S'
      in if Z = [] then NaN
         else if negative then to_double (- real (digits_value 0 Z))
         else to_double (real (digits_value 0 Z)))"

subsection \<open>The engine \<open>wasm.WasmBot\<close>\<close>

text \<open>
  The engine is a parameter: a record of its operations, as the client calls them, over
  an engine state \<open>'e\<close>.  Only \<open>place\<close> raises (the comment in \<open>takeAction\<close>: it throws
  \<open>IllegalMoveError\<close> if the move is illegal); an engine that rejects a move is left as
  it was.  \<open>undefined\<close> and \<open>null\<close> are both \<open>None\<close>.
\<close>

datatype error = IllegalMoveError | TypeError

record cell =
  cguess :: "nat option"
  player :: "nat option"

record action =
  row :: nat
  col :: nat
  guess :: number

record edge =
  action :: action
  score :: number
  visits :: nat

record 'e WasmBot =
  new :: "nat \<Rightarrow> nat \<Rightarrow> nat \<Rightarrow> 'e"
  get_cell :: "'e \<Rightarrow> nat \<Rightarrow> nat \<Rightarrow> cell"
  get_active_player :: "'e \<Rightarrow> nat option"
  get_scores :: "'e \<Rightarrow> int list"
  is_finished :: "'e \<Rightarrow> bool"
  place :: "'e \<Rightarrow> nat \<Rightarrow> nat \<Rightarrow> number \<Rightarrow> error + 'e"
  playout :: "'e \<Rightarrow> 'e"
  get_best_action :: "'e \<Rightarrow> edge option"
  free :: "'e \<Rightarrow> 'e"

subsection \<open>The state of the components\<close>

text \<open>\<open>GridState\<close>, the state object of \<open>Grid\<close>: the session snapshot that is rendered.\<close>

record GridState =
  activePlayer :: "nat option"
  grid :: "cell list list"
  scores :: "int list"
  winProb :: "number option"

text \<open>
  The callbacks handed to \<open>window.setTimeout\<close>, the lines written by \<open>console.log\<close>
  and the engine calls that change the engine (each playout with the method that issued
  it).
\<close>

datatype task = PonderTask | TakeBotActionTask

datatype log_entry = LogError error | LogFailedRegex string | LogPlayouts nat real

datatype call = Place nat nat number | Playout task | Free

text \<open>
  The \<open>Grid\<close> component with what surrounds it: its props (\<open>nrows\<close>, \<open>ncols\<close>), its
  fields (\<open>bot\<close>, \<open>shouldPonder\<close>), its \<open>state\<close>, the \<open>content\<close> of the state of each
  \<open>Cell\<close> by row and column, the pending timers with their delays, the console, the
  engine calls made so far, the exceptions that left a timer callback uncaught, and the
  readings that \<open>performance.now()\<close> will return, in order.
\<close>

record 'e Grid =
  nrows :: nat
  ncols :: nat
  bot :: "'e option"
  shouldPonder :: bool
  state :: GridState
  content :: "nat \<times> nat \<Rightarrow> string"
  timers :: "(task \<times> nat) list"
  console :: "log_entry list"
  calls :: "call list"
  uncaught :: "error list"
  clock :: "real list"

text \<open>
  How a method ends: it returns, it raises, or its time-boxed loop is still running when
  the readings of the clock end.
\<close>

datatype 's outcome = Returns 's | Throws error 's | Hangs

subsection \<open>\<open>Grid\<close>: snapshot, rendering, timers\<close>

definition setTimeout :: "task \<Rightarrow> nat \<Rightarrow> 'e Grid \<Rightarrow> 'e Grid" where
  "setTimeout f ms s = s\<lparr>timers := timers s @ [(f, ms)]\<rparr>"

definition getWinProb :: "'e WasmBot \<Rightarrow> 'e option \<Rightarrow> number option" where
  "getWinProb ops b =
     (case b of
        None \<Rightarrow> None
      | Some e \<Rightarrow>
          if get_active_player ops e \<noteq> Some HUMAN_PLAYER then None
          else (case get_best_action ops e of
                  None \<Rightarrow> None
                | Some edge \<Rightarrow>
                    Some (js_half (js_one_plus (js_div_count (score edge) (visits edge))))))"

definition getGameState :: "'e WasmBot \<Rightarrow> nat \<Rightarrow> nat \<Rightarrow> 'e option \<Rightarrow> GridState" where
  "getGameState ops nr nc b =
     \<lparr>activePlayer = (case b of Some e \<Rightarrow> get_active_player ops e | None \<Rightarrow> Some HUMAN_PLAYER),
      grid = map (\<lambda>r. map (\<lambda>c. case b of
                                  Some e \<Rightarrow> get_cell ops e r c
                                | None \<Rightarrow> \<lparr>cguess = None, player = None\<rparr>) [0..<nc]) [0..<nr],
      scores = (case b of Some e \<Rightarrow> get_scores ops e | None \<Rightarrow> [0, 0]),
      winProb = getWinProb ops b\<rparr>"

text \<open>
  \<open>render\<close> builds the view and, when the snapshot's active player is the bot, defers
  \<open>takeBotAction\<close> by a zero-delay timer.  Only the timer is kept here.
\<close>

definition render :: "'e Grid \<Rightarrow> 'e Grid" where
  "render s =
     (if activePlayer (state s) = Some BOT_PLAYER then setTimeout TakeBotActionTask 0 s else s)"

text \<open>
  \<open>this.setState(this.getGameState())\<close>: the snapshot is replaced and the component is
  rendered (the \<open>grid\<close> array is new, so the shallow comparison of a \<open>PureComponent\<close>
  never skips it).  \<open>this.setState({winProb: w})\<close>: only \<open>winProb\<close> is replaced, and a
  \<open>PureComponent\<close> is rendered again only if the value changed.
\<close>

definition setState_GridState :: "GridState \<Rightarrow> 'e Grid \<Rightarrow> 'e Grid" where
  "setState_GridState snap s = render (s\<lparr>state := snap\<rparr>)"

definition setState_winProb :: "number option \<Rightarrow> 'e Grid \<Rightarrow> 'e Grid" where
  "setState_winProb w s =
     (if winProb (state s) = w then s else render (s\<lparr>state := (state s)\<lparr>winProb := w\<rparr>\<rparr>))"

text \<open>
  The constructor: the first snapshot is taken before the engine exists.  Its active
  player is the human, so the first \<open>render\<close> sets no timer.
\<close>

definition constructor :: "'e WasmBot \<Rightarrow> nat \<Rightarrow> nat \<Rightarrow> real list \<Rightarrow> 'e Grid" where
  "constructor ops nr nc readings =
     \<lparr>nrows = nr, ncols = nc, bot = None, shouldPonder = False,
      state = getGameState ops nr nc None, content = (\<lambda>_. []), timers = [],
      console = [], calls = [], uncaught = [], clock = readings\<rparr>"

subsection \<open>\<open>Grid\<close>: moves\<close>

text \<open>
  \<open>takeAction\<close>.  A rejected \<open>place\<close> raises out of the method before \<open>setState\<close>.
  Using \<open>this.bot\<close> before it is set raises a \<open>TypeError\<close>.
\<close>

definition takeAction :: "'e WasmBot \<Rightarrow> action option \<Rightarrow> 'e Grid \<Rightarrow> 'e Grid outcome" where
  "takeAction ops a s =
     (case a of
        None \<Rightarrow> Returns s
      | Some act \<Rightarrow>
          (case bot s of
             None \<Rightarrow> Throws TypeError s
           | Some e \<Rightarrow>
               let s1 = s\<lparr>calls := calls s @ [Place (row act) (col act) (guess act)]\<rparr>
               in (case place ops e (row act) (col act) (guess act) of
                     Inl err \<Rightarrow> Throws err s1
                   | Inr e' \<Rightarrow>
                       let s2 = s1\<lparr>bot := Some e'\<rparr>
                       in Returns (setState_GridState
                                     (getGameState ops (nrows s2) (ncols s2) (bot s2)) s2))))"

text \<open>
  \<open>onCellInputBlur\<close>; \<open>v\<close> is \<open>e.currentTarget.value\<close>.  Reading
  \<open>this.state.grid[row][col].player\<close> outside the grid raises a \<open>TypeError\<close>.
\<close>

definition onCellInputBlur :: "'e WasmBot \<Rightarrow> nat \<Rightarrow> nat \<Rightarrow> string \<Rightarrow> 'e Grid \<Rightarrow> 'e Grid outcome" where
  "onCellInputBlur ops r c v s =
     (if \<not> (r < length (grid (state s)) \<and> c < length (grid (state s) ! r))
      then Throws TypeError s
      else if player (grid (state s) ! r ! c) \<noteq> None then Returns s
      else if v = [] \<or> \<not> regex_test legalActionRegex v then Returns s
      else takeAction ops
             (Some \<lparr>row = r, col = c,
                    guess = (if v = ''X'' then Fin 0 else parseInt10 v)\<rparr>) s)"

definition onCellInputChange :: "nat \<Rightarrow> nat \<Rightarrow> string \<Rightarrow> 'e Grid \<Rightarrow> 'e Grid" where
  "onCellInputChange r c v s =
     (if \<not> regex_test legalActionRegex v
      then s\<lparr>console := console s @ [LogFailedRegex v]\<rparr>
      else s)"

subsection \<open>\<open>Cell\<close>: the input handlers\<close>

text \<open>
  \<open>Cell.onBlur\<close> of the cell at \<open>(r, c)\<close>: the test reads the cell's own \<open>content\<close>, the
  call of \<open>props.onBlur\<close> (which is \<open>Grid.onCellInputBlur\<close>) stands in the \<open>try\<close>, and
  the content is cleared in every case.  \<open>Cell.onChange\<close> stores the typed text and then
  calls \<open>props.onChange\<close> (which is \<open>Grid.onCellInputChange\<close>).
\<close>

definition Cell_onBlur :: "'e WasmBot \<Rightarrow> nat \<Rightarrow> nat \<Rightarrow> string \<Rightarrow> 'e Grid \<Rightarrow> 'e Grid" where
  "Cell_onBlur ops r c v s =
     (let s1 = (if regex_test legalActionRegex (content s (r, c))
                then (case onCellInputBlur ops r c v s of
                        Returns s' \<Rightarrow> s'
                      | Throws err s' \<Rightarrow> s'\<lparr>console := console s' @ [LogError err]\<rparr>
                      | Hangs \<Rightarrow> s)
                else s)
      in s1\<lparr>content := (content s1)((r, c) := [])\<rparr>)"

definition Cell_onChange :: "nat \<Rightarrow> nat \<Rightarrow> string \<Rightarrow> 'e Grid \<Rightarrow> 'e Grid" where
  "Cell_onChange r c v s = onCellInputChange r c v (s\<lparr>content := (content s)((r, c) := v)\<rparr>)"

subsection \<open>\<open>Grid\<close>: the time-boxed search\<close>

text \<open>
  \<open>while (performance.now() - t0 < budget) { this.bot.playout(); ++nplayouts; }\<close>.
  Every test of the condition takes the next reading of the clock.  The result is the
  engine after the loop, the number of playouts and the readings left; \<open>None\<close> when the
  readings end while the condition still holds.
\<close>

fun playout_loop ::
  "'e WasmBot \<Rightarrow> real \<Rightarrow> real \<Rightarrow> real list \<Rightarrow> 'e \<Rightarrow> nat \<Rightarrow> ('e \<times> nat \<times> real list) option" where
  "playout_loop ops t0 budget [] e n = None"
| "playout_loop ops t0 budget (t # ts) e n =
     (if t - t0 < budget then playout_loop ops t0 budget ts (playout ops e) (Suc n)
      else Some (e, n, ts))"

definition ponder :: "'e WasmBot \<Rightarrow> 'e Grid \<Rightarrow> 'e Grid outcome" where
  "ponder ops s =
     (if \<not> shouldPonder s then Returns s
      else (case bot s of
              None \<Rightarrow> Throws TypeError s
            | Some e \<Rightarrow>
                if is_finished ops e then Returns (s\<lparr>shouldPonder := False\<rparr>)
                else (case clock s of
                        [] \<Rightarrow> Hangs
                      | t0 # ts \<Rightarrow>
                          (case playout_loop ops t0 PONDER_MS ts e 0 of
                             None \<Rightarrow> Hangs
                           | Some (e', nplayouts, ts') \<Rightarrow>
                               (case ts' of
                                  [] \<Rightarrow> Hangs
                                | tf # ts'' \<Rightarrow>
                                    let s1 = s\<lparr>bot := Some e', clock := ts'',
                                               calls := calls s @ replicate nplayouts (Playout PonderTask),
                                               console := console s @ [LogPlayouts nplayouts (tf - t0)]\<rparr>;
                                        s2 = setState_winProb (getWinProb ops (bot s1)) s1
                                    in Returns (setTimeout PonderTask PONDER_INTERVAL s2))))))"

text \<open>
  \<open>takeBotAction\<close>.  Without an engine the first use of \<open>this.bot\<close> raises a
  \<open>TypeError\<close>, in the body of the loop or after it, when two readings have been taken.
\<close>

definition takeBotAction :: "'e WasmBot \<Rightarrow> 'e Grid \<Rightarrow> 'e Grid outcome" where
  "takeBotAction ops s =
     (case clock s of
        [] \<Rightarrow> Hangs
      | t0 # ts \<Rightarrow>
          (case bot s of
             None \<Rightarrow> (case ts of [] \<Rightarrow> Hangs | t # ts' \<Rightarrow> Throws TypeError (s\<lparr>clock := ts'\<rparr>))
           | Some e \<Rightarrow>
               (case playout_loop ops t0 MIN_PLAYOUTS_MS ts e 0 of
                  None \<Rightarrow> Hangs
                | Some (e', n, ts') \<Rightarrow>
                    let s1 = s\<lparr>bot := Some e', clock := ts',
                               calls := calls s @ replicate n (Playout TakeBotActionTask)\<rparr>
                    in (case get_best_action ops e' of
                          None \<Rightarrow> Returns (s1\<lparr>shouldPonder := False\<rparr>)
                        | Some edge \<Rightarrow> takeAction ops (Some (action edge)) s1))))"

subsection \<open>\<open>Grid\<close>: mounting and unmounting\<close>

definition componentDidMount :: "'e WasmBot \<Rightarrow> 'e Grid \<Rightarrow> 'e Grid outcome" where
  "componentDidMount ops s =
     (let s1 = s\<lparr>bot := Some (new ops (nrows s) (ncols s) HUMAN_PLAYER)\<rparr>;
          s2 = setState_GridState (getGameState ops (nrows s1) (ncols s1) (bot s1)) s1;
          s3 = s2\<lparr>shouldPonder := True\<rparr>
      in ponder ops s3)"

definition componentWillUnmount :: "'e WasmBot \<Rightarrow> 'e Grid \<Rightarrow> 'e Grid outcome" where
  "componentWillUnmount ops s =
     (let s1 = s\<lparr>shouldPonder := False\<rparr>
      in (case bot s1 of
            None \<Rightarrow> Throws TypeError s1
          | Some e \<Rightarrow> Returns (s1\<lparr>bot := Some (free ops e), calls := calls s1 @ [Free]\<rparr>)))"

subsection \<open>The event loop\<close>

text \<open>
  After mounting, the browser runs one task at a time: a blur or a change of the input
  of a cell (with the value of the input), a pending timer (any of them: the one at index
  \<open>i\<close>), or the unmounting.  An exception that leaves a task is reported and the
  component stays as the task left it.  A step is \<open>None\<close> when the task hangs.
\<close>

datatype event = Blur nat nat string | Change nat nat string | Timeout nat | Unmount

fun run_task :: "'e WasmBot \<Rightarrow> task \<Rightarrow> 'e Grid \<Rightarrow> 'e Grid outcome" where
  "run_task ops PonderTask s = ponder ops s"
| "run_task ops TakeBotActionTask s = takeBotAction ops s"

definition finish :: "'e Grid outcome \<Rightarrow> 'e Grid option" where
  "finish out =
     (case out of
        Returns s \<Rightarrow> Some s
      | Throws err s \<Rightarrow> Some (s\<lparr>uncaught := uncaught s @ [err]\<rparr>)
      | Hangs \<Rightarrow> None)"

fun step :: "'e WasmBot \<Rightarrow> event \<Rightarrow> 'e Grid \<Rightarrow> 'e Grid option" where
  "step ops (Blur r c v) s = Some (Cell_onBlur ops r c v s)"
| "step ops (Change r c v) s = Some (Cell_onChange r c v s)"
| "step ops (Timeout i) s =
     (if i < length (timers s)
      then finish (run_task ops (fst (timers s ! i))
                     (s\<lparr>timers := take i (timers s) @ drop (Suc i) (timers s)\<rparr>))
      else Some s)"
| "step ops Unmount s = finish (componentWillUnmount ops s)"

fun run :: "'e WasmBot \<Rightarrow> event list \<Rightarrow> 'e Grid \<Rightarrow> 'e Grid option" where
  "run ops [] s = Some s"
| "run ops (ev # evs) s = (case step ops ev s of None \<Rightarrow> None | Some s' \<Rightarrow> run ops evs s')"

text \<open>The page: the component is constructed and mounted, then the events are run.\<close>

definition mount :: "'e WasmBot \<Rightarrow> nat \<Rightarrow> nat \<Rightarrow> real list \<Rightarrow> 'e Grid option" where
  "mount ops nr nc readings = finish (componentDidMount ops (constructor ops nr nc readings))"

definition session :: "'e WasmBot \<Rightarrow> nat \<Rightarrow> nat \<Rightarrow> real list \<Rightarrow> event list \<Rightarrow> 'e Grid option" where
  "session ops nr nc readings evs =
     (case mount ops nr nc readings of None \<Rightarrow> None | Some s \<Rightarrow> run ops evs s)"

text \<open>The number of pending timers of a task.\<close>

definition pending :: "task \<Rightarrow> 'e Grid \<Rightarrow> nat" where
  "pending f s = length (filter (\<lambda>p. fst p = f) (timers s))"

text \<open>The playouts that \<open>ponder\<close> has issued so far.\<close>

definition ponder_playouts :: "'e Grid \<Rightarrow> nat" where
  "ponder_playouts s = length (filter (\<lambda>c. c = Playout PonderTask) (calls s))"

subsection \<open>An engine for the examples\<close>

text \<open>
  The theorems below hold for every engine.  Their examples run the controller on this
  small engine, which is not the engine of the application: a board of free and filled
  cells on which the players alternate, a guess must be one of 0 to 4, every playout adds
  one visit and half a point, and the recommendation is the first free cell in row-major
  order with guess 0, once there is a visit.
\<close>

record board =
  b_rows :: nat
  b_cols :: nat
  b_cells :: "((nat \<times> nat) \<times> cell) list"
  b_active :: nat
  b_total :: real
  b_visits :: nat

definition b_free_cells :: "board \<Rightarrow> (nat \<times> nat) list" where
  "b_free_cells b =
     filter (\<lambda>p. map_of (b_cells b) p = None) (List.product [0..<b_rows b] [0..<b_cols b])"

definition b_guess :: "number \<Rightarrow> nat option" where
  "b_guess g = (case g of Fin x \<Rightarrow> find (\<lambda>k. real k = x) [0, 1, 2, 3, 4] | _ \<Rightarrow> None)"

definition b_place :: "board \<Rightarrow> nat \<Rightarrow> nat \<Rightarrow> number \<Rightarrow> error + board" where
  "b_place b r c g =
     (case b_guess g of
        None \<Rightarrow> Inl IllegalMoveError
      | Some k \<Rightarrow>
          if (r, c) \<in> set (b_free_cells b)
          then Inr (b\<lparr>b_cells := ((r, c), \<lparr>cguess = Some k, player = Some (b_active b)\<rparr>) # b_cells b,
                      b_active := 1 - b_active b, b_total := 0, b_visits := 0\<rparr>)
          else Inl IllegalMoveError)"

definition b_best :: "board \<Rightarrow> edge option" where
  "b_best b =
     (case b_free_cells b of
        [] \<Rightarrow> None
      | (r, c) # _ \<Rightarrow>
          if b_visits b = 0 then None
          else Some \<lparr>action = \<lparr>row = r, col = c, guess = Fin 0\<rparr>,
                     score = Fin (b_total b), visits = b_visits b\<rparr>)"

definition board_ops :: "board WasmBot" where
  "board_ops =
     \<lparr>new = (\<lambda>nr nc first.
              \<lparr>b_rows = nr, b_cols = nc, b_cells = [], b_active = first, b_total = 0, b_visits = 0\<rparr>),
      get_cell = (\<lambda>b r c. case map_of (b_cells b) (r, c) of
                             None \<Rightarrow> \<lparr>cguess = None, player = None\<rparr>
                           | Some x \<Rightarrow> x),
      get_active_player = (\<lambda>b. Some (b_active b)),
      get_scores = (\<lambda>b. [0, 0]),
      is_finished = (\<lambda>b. b_free_cells b = []),
      place = b_place,
      playout = (\<lambda>b. b\<lparr>b_total := b_total b + 1 / 2, b_visits := Suc (b_visits b)\<rparr>),
      get_best_action = b_best,
      free = (\<lambda>b. b)\<rparr>"

subsection \<open>Notions used in the statements\<close>

text \<open>A method ends in \<open>s'\<close> when it returns or raises with the component \<open>s'\<close>.\<close>

fun ends_in :: "'s outcome \<Rightarrow> 's \<Rightarrow> bool" where
  "ends_in (Returns s) s' = (s' = s)"
| "ends_in (Throws err s) s' = (s' = s)"
| "ends_in Hangs s' = False"

text \<open>The calls of \<open>place\<close> among the engine calls.\<close>

fun is_place :: "call \<Rightarrow> bool" where
  "is_place (Place r c g) = True"
| "is_place (Playout f) = False"
| "is_place Free = False"

definition placements :: "'e Grid \<Rightarrow> call list" where
  "placements s = filter is_place (calls s)"

subsection \<open>What is assumed of the engine\<close>

text \<open>
  Modelled from the spec: the engine (the WebAssembly module \<open>prophecies\<close>) is not part
  of the client's source.  Its interface says that the active participant is none once the
  session is finished and that \<open>bestAction\<close> yields none when the game is finished.
  \<open>reports_finish\<close> asks for one of the two in every finished state.
\<close>

definition reports_finish :: "'e WasmBot \<Rightarrow> bool" where
  "reports_finish ops =
     (\<forall>e. is_finished ops e \<longrightarrow> get_active_player ops e = None \<or> get_best_action ops e = None)"

text \<open>
  Modelled from the spec: the engine is not part of the client's source.  Its interface
  says that all mutation of the game state funnels through \<open>place\<close> and that the search
  only advances the engine's statistics.  \<open>keeps_turn\<close> asks that a playout leaves the
  active participant as it is.
\<close>

definition keeps_turn :: "'e WasmBot \<Rightarrow> bool" where
  "keeps_turn ops = (\<forall>e. get_active_player ops (playout ops e) = get_active_player ops e)"


text \<open>
  Modelled from the spec: the engine is not part of the client's source.  The spec says
  of the estimate that the accumulated score is assumed normalised to
  \<open>[- visitCount, + visitCount]\<close> by the engine's convention: the mean outcome lies in
  \<open>[- 1, 1]\<close>.  \<open>normalised\<close> asks that of a recommendation: it has a visit, and a finite
  score that is at most the number of visits in magnitude.
\<close>

definition normalised :: "edge \<Rightarrow> bool" where
  "normalised edge =
     (case score edge of
        Fin x \<Rightarrow> 0 < visits edge \<and> \<bar>x\<bar> \<le> real (visits edge)
      | _ \<Rightarrow> False)"

text \<open>
  The snapshot mirrors the engine: an estimate is shown on the human's turn only, and
  while pondering is on, the active player of the snapshot is the engine's.
\<close>

definition mirrors :: "'e WasmBot \<Rightarrow> 'e Grid \<Rightarrow> bool" where
  "mirrors ops s =
     ((winProb (state s) \<noteq> None \<longrightarrow> activePlayer (state s) = Some HUMAN_PLAYER)
      \<and> (shouldPonder s \<longrightarrow>
           (\<exists>e. bot s = Some e \<and> activePlayer (state s) = get_active_player ops e)))"

subsection \<open>The states of the examples\<close>

text \<open>
  A board of one row and two columns.  \<open>example_mounted\<close> is the component after
  mounting with the clock readings 0, 1, 200, 300 (one playout in the first pondering
  cycle); the readings 1330, 1331, 1600, 1700 are still to come.  \<open>example_moved\<close> is the
  component after the human has then typed and committed 3 in the cell \<open>(0, 0)\<close>: it is
  the bot's turn, and the \<open>ponder\<close> timer and the \<open>takeBotAction\<close> timer are pending.
  \<open>example_unmounted\<close> is \<open>example_mounted\<close> after unmounting.  \<open>example_replied\<close>
  is the component of another session from \<open>example_mounted\<close>: the human commits 9 in
  the cell \<open>(0, 0)\<close>, which the engine rejects, then commits 3 there, and the
  \<open>takeBotAction\<close> timer fires: the bot has placed 0 in the cell \<open>(0, 1)\<close>.
\<close>

definition example_mounted :: "board Grid" where
  "example_mounted =
     \<lparr>nrows = 1, ncols = 2,
      bot = Some \<lparr>b_rows = 1, b_cols = 2, b_cells = [], b_active = 0, b_total = 1 / 2, b_visits = 1\<rparr>,
      shouldPonder = True,
      state = \<lparr>activePlayer = Some 0,
               grid = [[\<lparr>cguess = None, player = None\<rparr>, \<lparr>cguess = None, player = None\<rparr>]],
               scores = [0, 0], winProb = Some (Fin (3 / 4))\<rparr>,
      content = (\<lambda>_. []), timers = [(PonderTask, 1024)],
      console = [LogPlayouts 1 300], calls = [Playout PonderTask], uncaught = [],
      clock = [1330, 1331, 1600, 1700]\<rparr>"

definition example_moved :: "board Grid" where
  "example_moved =
     \<lparr>nrows = 1, ncols = 2,
      bot = Some \<lparr>b_rows = 1, b_cols = 2,
                  b_cells = [((0, 0), \<lparr>cguess = Some 3, player = Some 0\<rparr>)],
                  b_active = 1, b_total = 0, b_visits = 0\<rparr>,
      shouldPonder = True,
      state = \<lparr>activePlayer = Some 1,
               grid = [[\<lparr>cguess = Some 3, player = Some 0\<rparr>, \<lparr>cguess = None, player = None\<rparr>]],
               scores = [0, 0], winProb = None\<rparr>,
      content = (\<lambda>_. []), timers = [(PonderTask, 1024), (TakeBotActionTask, 0)],
      console = [LogPlayouts 1 300], calls = [Playout PonderTask, Place 0 0 (Fin 3)],
      uncaught = [], clock = [1330, 1331, 1600, 1700]\<rparr>"

definition example_unmounted :: "board Grid" where
  "example_unmounted = example_mounted\<lparr>shouldPonder := False, calls := [Playout PonderTask, Free]\<rparr>"


section \<open>Rounding to a double\<close>

text \<open>
  \<open>binary_exponent\<close> is the exponent of the binade, rounding to an integer stays within
  integer bounds, and \<open>to_double\<close> leaves the doubles of at most 53 bits as they are and
  stays within integer bounds.
\<close>

lemma binary_exponent_bounds:
  assumes "x \<noteq> 0"
  shows "2 powi binary_exponent x \<le> \<bar>x\<bar> \<and> \<bar>x\<bar> < 2 powi (binary_exponent x + 1)"
proof (cases "1 \<le> \<bar>x\<bar>")
  case True
  define n where "n = \<lfloor>\<bar>x\<bar>\<rfloor>"
  from True have n: "0 < n" by (simp add: n_def)
  then have b1: "1 \<le> bitlen n" by (auto simp: bitlen_alt_def)
  from bitlen_bounds [OF n] have lo: "2 ^ nat (bitlen n - 1) \<le> n" and hi: "n < 2 ^ nat (bitlen n)"
    by simp_all
  have e: "binary_exponent x = bitlen n - 1"
    using True by (simp add: binary_exponent_def n_def)
  have "(2::real) powi (bitlen n - 1) = 2 ^ nat (bitlen n - 1)"
    using b1 by (simp add: power_int_def)
  also have "\<dots> = of_int (2 ^ nat (bitlen n - 1))" by simp
  also have "\<dots> \<le> of_int n" using lo by (simp only: of_int_le_iff)
  also have "\<dots> \<le> \<bar>x\<bar>" by (simp add: n_def)
  finally have A: "2 powi (bitlen n - 1) \<le> \<bar>x\<bar>" .
  have "n + 1 \<le> 2 ^ nat (bitlen n)" using hi by simp
  then have "real_of_int (n + 1) \<le> of_int (2 ^ nat (bitlen n))" by (simp only: of_int_le_iff)
  moreover have "\<bar>x\<bar> < real_of_int (n + 1)" by (simp add: n_def)
  ultimately have "\<bar>x\<bar> < 2 ^ nat (bitlen n)" by simp
  also have "\<dots> = 2 powi (bitlen n)" using b1 by (simp add: power_int_def)
  finally have B: "\<bar>x\<bar> < 2 powi (bitlen n - 1 + 1)" by simp
  from A B e show ?thesis by simp
next
  case False
  with assms have x: "0 < \<bar>x\<bar>" "\<bar>x\<bar> < 1" by simp_all
  define z where "z = 1 / \<bar>x\<bar>"
  from x have z: "1 < z" by (simp add: z_def)
  define n where "n = \<lceil>z\<rceil> - 1"
  from z have n: "0 < n" by (simp add: n_def less_ceiling_iff)
  have nz: "of_int n < z" "z \<le> of_int n + 1"
    by (simp_all add: n_def) linarith+
  from n have b1: "1 \<le> bitlen n" by (auto simp: bitlen_alt_def)
  from bitlen_bounds [OF n] have lo: "2 ^ nat (bitlen n - 1) \<le> n" and hi: "n < 2 ^ nat (bitlen n)"
    by simp_all
  have e: "binary_exponent x = - bitlen n"
    using False by (simp add: binary_exponent_def n_def z_def)
  have "n + 1 \<le> 2 ^ nat (bitlen n)" using hi by simp
  then have "real_of_int (n + 1) \<le> of_int (2 ^ nat (bitlen n))" by (simp only: of_int_le_iff)
  with nz have "z \<le> 2 ^ nat (bitlen n)" by simp
  then have zb: "z \<le> 2 powi (bitlen n)" using b1 by (simp add: power_int_def)
  have "real_of_int (2 ^ nat (bitlen n - 1)) \<le> of_int n" using lo by (simp only: of_int_le_iff)
  then have "(2::real) ^ nat (bitlen n - 1) \<le> of_int n" by simp
  with nz have "2 ^ nat (bitlen n - 1) < z" by linarith
  then have za: "2 powi (bitlen n - 1) < z" using b1 by (simp add: power_int_def)
  have xz: "\<bar>x\<bar> = 1 / z" using x by (simp add: z_def)
  have p: "0 < (2::real) powi k" for k by simp
  have A: "2 powi (- bitlen n) \<le> \<bar>x\<bar>"
    using zb z p [of "bitlen n"] by (simp add: xz power_int_minus_divide frac_le)
  have "(2::real) powi (- bitlen n + 1) = 1 / 2 powi (bitlen n - 1)"
    using power_int_minus_divide [of "2::real" "bitlen n - 1"] by simp
  moreover have "1 / z < 1 / 2 powi (bitlen n - 1)"
    using za p [of "bitlen n - 1"] by (simp add: frac_less2)
  ultimately have B: "\<bar>x\<bar> < 2 powi (- bitlen n + 1)" by (simp add: xz)
  from A B e show ?thesis by simp
qed

lemma binary_exponent_unique:
  assumes "2 powi k \<le> \<bar>x\<bar>" "\<bar>x\<bar> < 2 powi (k + 1)"
  shows "binary_exponent x = k"
proof -
  have "0 < (2::real) powi k" by simp
  with assms(1) have "0 < \<bar>x\<bar>" by linarith
  then have x: "x \<noteq> 0" by simp
  from binary_exponent_bounds [OF x] have b: "2 powi binary_exponent x \<le> \<bar>x\<bar>"
      "\<bar>x\<bar> < 2 powi (binary_exponent x + 1)" by simp_all
  from assms(1) b(2) have "(2::real) powi k < 2 powi (binary_exponent x + 1)" by simp
  then have "k < binary_exponent x + 1"
    using power_int_increasing [of "binary_exponent x + 1" k "2::real"] by (cases "k < binary_exponent x + 1") simp_all
  moreover from b(1) assms(2) have "(2::real) powi binary_exponent x < 2 powi (k + 1)" by simp
  then have "binary_exponent x < k + 1"
    using power_int_increasing [of "k + 1" "binary_exponent x" "2::real"] by (cases "binary_exponent x < k + 1") simp_all
  ultimately show ?thesis by simp
qed


lemma round_half_even_int: "round_half_even (of_int m) = m"
  by (simp add: round_half_even_def)

lemma round_half_even_lower:
  assumes "of_int K \<le> y"
  shows "K \<le> round_half_even y"
proof -
  from assms have "K \<le> \<lfloor>y\<rfloor>" by (simp add: le_floor_iff)
  then show ?thesis by (simp add: round_half_even_def Let_def)
qed

lemma round_half_even_upper:
  assumes "y \<le> of_int K"
  shows "round_half_even y \<le> K"
proof (cases "y = of_int K")
  case True
  then show ?thesis by (simp add: round_half_even_int)
next
  case False
  with assms have "y < of_int K" by simp
  then have "\<lfloor>y\<rfloor> < K" by (simp add: floor_less_iff)
  then show ?thesis by (simp add: round_half_even_def Let_def)
qed

lemma round_half_even_upper_half:
  assumes "y \<le> of_int K + 1 / 2" "even K"
  shows "round_half_even y \<le> K"
proof (cases "y < of_int K")
  case True
  then show ?thesis using round_half_even_upper [of y K] by simp
next
  case False
  with assms have f: "\<lfloor>y\<rfloor> = K" by (simp add: floor_eq_iff)
  with assms show ?thesis by (simp add: round_half_even_def Let_def)
qed

lemma round_half_even_lower_half:
  assumes "of_int K - 1 / 2 \<le> y" "even K"
  shows "K \<le> round_half_even y"
proof (cases "of_int K \<le> y")
  case True
  then show ?thesis by (rule round_half_even_lower)
next
  case False
  with assms have f: "\<lfloor>y\<rfloor> = K - 1" by (simp add: floor_eq_iff)
  with assms show ?thesis by (auto simp: round_half_even_def Let_def)
qed

lemma round_half_even_near: "\<bar>of_int (round_half_even y) - y\<bar> \<le> 1 / 2"
proof -
  have "of_int \<lfloor>y\<rfloor> \<le> y" "y < of_int \<lfloor>y\<rfloor> + 1" by linarith+
  then show ?thesis by (auto simp: round_half_even_def Let_def abs_le_iff)
qed


lemma binary_exponent_less:
  assumes "x \<noteq> 0" "\<bar>x\<bar> < 2 powi K"
  shows "binary_exponent x < K"
proof (rule ccontr)
  assume "\<not> binary_exponent x < K"
  then have "(2::real) powi K \<le> 2 powi binary_exponent x"
    by (intro power_int_increasing) simp_all
  with binary_exponent_bounds [OF assms(1)] assms(2) show False by simp
qed

lemma binary_exponent_ge:
  assumes "2 powi K \<le> \<bar>x\<bar>"
  shows "K \<le> binary_exponent x"
proof (rule ccontr)
  assume "\<not> K \<le> binary_exponent x"
  then have "(2::real) powi (binary_exponent x + 1) \<le> 2 powi K"
    by (intro power_int_increasing) simp_all
  moreover have "0 < (2::real) powi K" by simp
  with assms have "0 < \<bar>x\<bar>" by linarith
  then have "x \<noteq> 0" by simp
  ultimately show False using binary_exponent_bounds [of x] assms by simp
qed

lemma to_double_between:
  assumes x: "of_int a \<le> x" "x \<le> of_int b"
    and ab: "- (2 ^ 53) < a" "b < 2 ^ 53"
  shows "\<exists>y. to_double x = Fin y \<and> of_int a \<le> y \<and> y \<le> of_int b"
proof (cases "x = 0")
  case True
  with x show ?thesis by (simp add: to_double_def)
next
  case False
  from ab(1) have "- (2 ^ 53) < real_of_int a"
    by (metis of_int_less_iff of_int_minus of_int_numeral of_int_power)
  from ab(2) have "real_of_int b < 2 ^ 53"
    by (metis of_int_less_iff of_int_numeral of_int_power)
  note \<open>- (2 ^ 53) < real_of_int a\<close> \<open>real_of_int b < 2 ^ 53\<close>
  with x have small: "\<bar>x\<bar> < 2 powi 53" by simp
  define e where "e = max (binary_exponent x - 52) (- 1074)"
  define N where "N = nat (- e)"
  from binary_exponent_less [OF False small] have e0: "e \<le> 0" by (simp add: e_def)
  then have s: "(2::real) powi e = 1 / 2 ^ N"
    by (simp add: N_def power_int_def field_simps)
  define m where "m = round_half_even (x * 2 ^ N)"
  have "real_of_int (a * 2 ^ N) \<le> x * 2 ^ N" using x(1) by simp
  then have lo: "a * 2 ^ N \<le> m" unfolding m_def by (rule round_half_even_lower)
  have "x * 2 ^ N \<le> real_of_int (b * 2 ^ N)" using x(2) by simp
  then have hi: "m \<le> b * 2 ^ N" unfolding m_def by (rule round_half_even_upper)
  define y where "y = real_of_int m / 2 ^ N"
  from lo have "real_of_int (a * 2 ^ N) \<le> of_int m" by (simp only: of_int_le_iff)
  then have ya: "of_int a \<le> y" by (simp add: y_def field_simps)
  from hi have "real_of_int m \<le> of_int (b * 2 ^ N)" by (simp only: of_int_le_iff)
  then have yb: "y \<le> of_int b" by (simp add: y_def field_simps)
  from ya yb \<open>- (2 ^ 53) < real_of_int a\<close> \<open>real_of_int b < 2 ^ 53\<close>
  have "\<not> 2 ^ 1024 \<le> y" "\<not> y \<le> - (2 ^ 1024)" by simp_all
  with False have "to_double x = Fin y"
    by (simp add: to_double_def Let_def e_def [symmetric] s m_def [symmetric] y_def)
  with ya yb show ?thesis by blast
qed

lemma to_double_exact:
  assumes "\<bar>m\<bar> < 2 ^ 53" "j \<le> 1074"
  shows "to_double (of_int m / 2 ^ j) = Fin (of_int m / 2 ^ j)"
proof (cases "m = 0")
  case True
  then show ?thesis by (simp add: to_double_def)
next
  case False
  define x where "x = real_of_int m / 2 ^ j"
  from False have x0: "x \<noteq> 0" by (simp add: x_def)
  from assms(1) have "real_of_int \<bar>m\<bar> < 2 ^ 53"
    by (metis of_int_less_iff of_int_numeral of_int_power)
  then have m53: "\<bar>real_of_int m\<bar> < 2 ^ 53" by simp
  then have "\<bar>x\<bar> < 2 ^ 53 / 2 ^ j" by (simp add: x_def divide_strict_right_mono)
  also have "\<dots> = 2 powi (53 - int j)" by (simp add: power_int_diff)
  finally have "binary_exponent x < 53 - int j" by (rule binary_exponent_less [OF x0])
  define e where "e = max (binary_exponent x - 52) (- 1074)"
  define N where "N = nat (- e)"
  from \<open>binary_exponent x < 53 - int j\<close> assms(2) have ej: "e \<le> - int j" by (simp add: e_def)
  then have Nj: "j \<le> N" by (simp add: N_def)
  from ej have s: "(2::real) powi e = 1 / 2 ^ N"
    by (simp add: N_def power_int_def field_simps)
  from Nj obtain d where d: "N = j + d" by (auto simp: le_iff_add)
  have "x * 2 ^ N = real_of_int (m * 2 ^ d)"
    by (simp add: x_def d power_add)
  then have "round_half_even (x * 2 ^ N) = m * 2 ^ d"
    by (simp only: round_half_even_int)
  then have y: "real_of_int (round_half_even (x * 2 ^ N)) / 2 ^ N = x"
    by (simp add: x_def d power_add)
  have "\<bar>x\<bar> \<le> \<bar>real_of_int m\<bar>" by (simp add: x_def field_simps mult_le_cancel_left1)
  with m53 have "\<bar>x\<bar> < 2 ^ 1024" by simp
  then have "\<not> 2 ^ 1024 \<le> x" "\<not> x \<le> - (2 ^ 1024)" by simp_all
  with x0 y have "to_double x = Fin x"
    by (simp add: to_double_def Let_def e_def [symmetric] s)
  then show ?thesis by (simp add: x_def)
qed


lemma to_double_near_one:
  assumes "\<bar>x\<bar> \<le> 1 + 1 / 2 ^ 53"
  shows "\<exists>q. to_double x = Fin q \<and> \<bar>q\<bar> \<le> 1"
proof (cases "\<bar>x\<bar> \<le> 1")
  case True
  then have "of_int (- 1) \<le> x" "x \<le> of_int 1" by simp_all
  from to_double_between [OF this] show ?thesis by (auto simp: abs_le_iff)
next
  case False
  then have x0: "x \<noteq> 0" by auto
  from False assms have "2 powi 0 \<le> \<bar>x\<bar>" "\<bar>x\<bar> < 2 powi (0 + 1)" by simp_all
  then have k: "binary_exponent x = 0" by (rule binary_exponent_unique)
  have s: "(2::real) powi (- 52) = 1 / 2 ^ 52" by (simp add: power_int_minus_divide)
  have "round_half_even (x * 2 ^ 52) = (if 0 < x then 2 ^ 52 else - (2 ^ 52))"
  proof (cases "0 < x")
    case True
    with False assms have "real_of_int (2 ^ 52) \<le> x * 2 ^ 52" "x * 2 ^ 52 \<le> real_of_int (2 ^ 52) + 1 / 2"
      by simp_all
    from round_half_even_lower [OF this(1)] round_half_even_upper_half [OF this(2)] True
    show ?thesis by simp
  next
    case neg: False
    with False assms have "real_of_int (- (2 ^ 52)) - 1 / 2 \<le> x * 2 ^ 52" "x * 2 ^ 52 \<le> real_of_int (- (2 ^ 52))"
      by simp_all
    from round_half_even_lower_half [OF this(1)] round_half_even_upper [OF this(2)] neg
    show ?thesis by simp
  qed
  with x0 have "to_double x = Fin (if 0 < x then 1 else - 1)"
    by (simp add: to_double_def Let_def k s)
  then show ?thesis by auto
qed

lemma to_double_count:
  assumes "0 < n"
  shows "to_double (real n) = PosInf
         \<or> (\<exists>d. to_double (real n) = Fin d \<and> 0 < d \<and> real n \<le> d * (1 + 1 / 2 ^ 53))"
proof -
  define x where "x = real n"
  from assms have x1: "2 powi 0 \<le> \<bar>x\<bar>" and x0: "x \<noteq> 0" and xp: "0 < x" by (simp_all add: x_def)
  define k where "k = binary_exponent x"
  from binary_exponent_ge [OF x1] have k0: "0 \<le> k" by (simp add: k_def)
  define e where "e = k - 52"
  have e: "max (binary_exponent x - 52) (- 1074) = e" using k0 by (simp add: e_def k_def)
  define s where "s = (2::real) powi e"
  have sp: "0 < s" by (simp add: s_def)
  have ks: "(2::real) powi k = 2 ^ 52 * s"
    using power_int_add [of "2::real" 52 e] by (simp add: s_def e_def)
  define m where "m = round_half_even (x / s)"
  define d where "d = real_of_int m * s"
  from binary_exponent_bounds [OF x0] xp have "2 powi k \<le> x" by (simp add: k_def)
  then have "real_of_int (2 ^ 52) \<le> x / s" using sp by (simp add: ks pos_le_divide_eq)
  then have "2 ^ 52 \<le> m" unfolding m_def by (rule round_half_even_lower)
  then have "real_of_int (2 ^ 52) \<le> of_int m" by (simp only: of_int_le_iff)
  then have m52: "2 ^ 52 \<le> real_of_int m" by simp
  with sp have dk: "2 ^ 52 * s \<le> d" by (simp add: d_def)
  from sp have "0 < 2 ^ 52 * s" by simp
  with dk have dp: "0 < d" by linarith
  from round_half_even_near [of "x / s"] have "x / s \<le> real_of_int m + 1 / 2"
    unfolding m_def by linarith
  with sp have "x \<le> (real_of_int m + 1 / 2) * s" by (simp add: pos_divide_le_eq)
  then have "x \<le> d + s / 2" by (simp add: d_def algebra_simps)
  moreover from dk have "s / 2 \<le> d / 2 ^ 53" by simp
  ultimately have rel: "x \<le> d * (1 + 1 / 2 ^ 53)" by (simp add: algebra_simps)
  have "to_double x = (if 2 ^ 1024 \<le> d then PosInf else Fin d)"
    using x0 dp by (simp add: to_double_def Let_def e s_def [symmetric] m_def [symmetric] d_def [symmetric])
  with dp rel show ?thesis by (auto simp: x_def)
qed

lemma to_double_nat:
  assumes "n < 2 ^ 53"
  shows "to_double (real n) = Fin (real n)"
proof -
  from assms have "int n < 2 ^ 53"
    by (metis of_nat_less_iff of_nat_numeral of_nat_power)
  then have "\<bar>int n\<bar> < 2 ^ 53" by simp
  from to_double_exact [OF this, of 0] show ?thesis by simp
qed

lemma to_double_values:
  "to_double 1 = Fin 1" "to_double 2 = Fin 2" "to_double 3 = Fin 3" "to_double 9 = Fin 9"
  "to_double (1 / 2) = Fin (1 / 2)" "to_double (3 / 2) = Fin (3 / 2)"
  "to_double (3 / 4) = Fin (3 / 4)"
  using to_double_exact [of 1 0] to_double_exact [of 2 0] to_double_exact [of 3 0]
    to_double_exact [of 9 0] to_double_exact [of 1 1] to_double_exact [of 3 1]
    to_double_exact [of 3 2]
  by simp_all

lemma round_half_even_eqI:
  assumes "\<bar>y - of_int m\<bar> < 1 / 2"
  shows "round_half_even y = m"
proof -
  from assms have "of_int m - 1 / 2 < y" "y < of_int m + 1 / 2" by linarith+
  then have "\<lfloor>y\<rfloor> = m \<or> \<lfloor>y\<rfloor> = m - 1"
    by (cases "of_int m \<le> y") (simp_all add: floor_eq_iff)
  then consider "\<lfloor>y\<rfloor> = m" | "\<lfloor>y\<rfloor> = m - 1"
    by blast
  then show ?thesis
  proof cases
    case 1
    with \<open>y < of_int m + 1 / 2\<close> show ?thesis by (simp add: round_half_even_def Let_def)
  next
    case 2
    with \<open>of_int m - 1 / 2 < y\<close> show ?thesis by (auto simp: round_half_even_def Let_def)
  qed
qed

lemma to_double_in_binade:
  assumes "2 powi k \<le> \<bar>x\<bar>" "\<bar>x\<bar> < 2 powi (k + 1)"
    and "- 1022 \<le> k" "k \<le> 52"
    and "\<bar>x * 2 ^ nat (52 - k) - of_int m\<bar> < 1 / 2"
    and "\<bar>real_of_int m / 2 ^ nat (52 - k)\<bar> < 2 ^ 1024"
  shows "to_double x = Fin (of_int m / 2 ^ nat (52 - k))"
proof -
  have "0 < (2::real) powi k" by simp
  with assms(1) have "0 < \<bar>x\<bar>" by linarith
  then have x0: "x \<noteq> 0" by simp
  from assms(1,2) have k: "binary_exponent x = k" by (rule binary_exponent_unique)
  from assms(3) have e: "max (k - 52) (- 1074) = k - 52" by simp
  from assms(4) have s: "(2::real) powi (k - 52) = 1 / 2 ^ nat (52 - k)"
    by (simp add: power_int_def field_simps)
  from assms(5) have m: "round_half_even (x * 2 ^ nat (52 - k)) = m" by (rule round_half_even_eqI)
  have "\<bar>a\<bar> < B \<Longrightarrow> \<not> B \<le> a \<and> \<not> a \<le> - B" for a B :: real by linarith
  from this [OF assms(6)] have "\<not> 2 ^ 1024 \<le> real_of_int m / 2 ^ nat (52 - k)"
      "\<not> real_of_int m / 2 ^ nat (52 - k) \<le> - (2 ^ 1024)" by blast+
  with x0 show ?thesis
    by (simp add: to_double_def Let_def k e s m)
qed

text \<open>
  Where the exact result is not a double it is rounded: one point in three visits gives
  the estimate \<open>0.6666666666666666\<close>, which is \<open>6004799503160661 / 2 ^ 53\<close>.
\<close>

lemma estimate_of_one_in_three:
  "js_half (js_one_plus (js_div_count (Fin 1) 3)) = Fin (6004799503160661 / 2 ^ 53)"
proof -
  have a: "to_double (1 / 3) = Fin (6004799503160661 / 2 ^ 54)"
    using to_double_in_binade [of "- 2" "1 / 3" 6004799503160661] by simp
  have b: "to_double (1 + 6004799503160661 / 2 ^ 54) = Fin (6004799503160661 / 2 ^ 52)"
    using to_double_in_binade [of 0 "1 + 6004799503160661 / 2 ^ 54" 6004799503160661] by simp
  have c: "to_double (6004799503160661 / 2 ^ 52 / 2) = Fin (6004799503160661 / 2 ^ 53)"
    using to_double_exact [of 6004799503160661 53] by simp
  from a b c show ?thesis by (simp add: to_double_values)
qed

text \<open>
  For a count \<open>n\<close> of at least one and a score of at most \<open>n\<close> in magnitude, the three
  rounded operations of the estimate stay between 0 and 1.
\<close>

lemma estimate_in_unit_interval:
  assumes "0 < n" "\<bar>x\<bar> \<le> real n"
  shows "\<exists>y. js_half (js_one_plus (js_div_count (Fin x) n)) = Fin y \<and> 0 \<le> y \<and> y \<le> 1"
proof -
  have "\<exists>q. js_div_count (Fin x) n = Fin q \<and> \<bar>q\<bar> \<le> 1"
    using to_double_count [OF assms(1)]
  proof
    assume "to_double (real n) = PosInf"
    then show ?thesis by simp
  next
    assume "\<exists>d. to_double (real n) = Fin d \<and> 0 < d \<and> real n \<le> d * (1 + 1 / 2 ^ 53)"
    then obtain d where d: "to_double (real n) = Fin d" "0 < d" "real n \<le> d * (1 + 1 / 2 ^ 53)"
      by blast
    from assms(2) d(3) have "\<bar>x\<bar> \<le> d * (1 + 1 / 2 ^ 53)" by simp
    with d(2) have "\<bar>x / d\<bar> \<le> 1 + 1 / 2 ^ 53" by (simp add: pos_divide_le_eq mult.commute)
    from to_double_near_one [OF this] d show ?thesis by simp
  qed
  then obtain q where q: "js_div_count (Fin x) n = Fin q" "\<bar>q\<bar> \<le> 1" by blast
  then have "of_int 0 \<le> 1 + q" "1 + q \<le> of_int 2" by (simp_all add: abs_le_iff)
  from to_double_between [OF this] obtain h where h: "to_double (1 + q) = Fin h" "0 \<le> h" "h \<le> 2"
    by auto
  then have "of_int 0 \<le> h / 2" "h / 2 \<le> of_int 1" by simp_all
  from to_double_between [OF this] obtain y where "to_double (h / 2) = Fin y" "0 \<le> y" "y \<le> 1"
    by auto
  with q h show ?thesis by simp
qed

section \<open>Unfolding the model on examples\<close>

lemmas controller_defs =
  session_def mount_def finish_def constructor_def componentDidMount_def
  componentWillUnmount_def getGameState_def getWinProb_def setState_GridState_def
  setState_winProb_def render_def setTimeout_def ponder_def takeBotAction_def takeAction_def
  Cell_onBlur_def Cell_onChange_def onCellInputBlur_def onCellInputChange_def
  HUMAN_PLAYER_def BOT_PLAYER_def PONDER_MS_def MIN_PLAYOUTS_MS_def PONDER_INTERVAL_def
  Let_def to_double_values

lemmas regex_defs = regex_test_def legalActionRegex_def disjunction_ends_def

lemmas parse_defs = parseInt10_def is_white_space_def is_digit_def digit_of_def

lemmas board_defs =
  board_ops_def b_place_def b_best_def b_guess_def b_free_cells_def upt_conv_Cons

section \<open>Properties of the parts\<close>

subsection \<open>What \<open>legalActionRegex\<close> accepts\<close>

text \<open>
  The first alternative is anchored at the start only and the second at the end only: the
  test accepts exactly the texts that begin with \<open>X\<close> or end in a decimal digit.
\<close>

lemma plus_ends_reaches_end:
  "(\<exists>j. (j, []) \<in> set (plus_ends a i rest)) \<longleftrightarrow> rest \<noteq> [] \<and> list_all (atom_matches a) rest"
proof (induction rest arbitrary: i)
  case Nil
  show ?case by simp
next
  case (Cons x xs)
  show ?case
  proof (cases "atom_matches a x")
    case False
    then show ?thesis by simp
  next
    case True
    have "(\<exists>j. (j, []) \<in> set (plus_ends a i (x # xs))) \<longleftrightarrow>
          (\<exists>j. (j, []) \<in> set (plus_ends a (Suc i) xs)) \<or> xs = []"
      using True by auto
    also have "\<dots> \<longleftrightarrow> (xs \<noteq> [] \<and> list_all (atom_matches a) xs) \<or> xs = []"
      using Cons.IH [of "Suc i"] by simp
    also have "\<dots> \<longleftrightarrow> list_all (atom_matches a) (x # xs)"
      using True by auto
    finally show ?thesis by simp
  qed
qed

lemma digits_alternative:
  "alternative_ends [Plus a, AssertEnd] (i, rest) \<noteq> [] \<longleftrightarrow>
     rest \<noteq> [] \<and> list_all (atom_matches a) rest"
proof -
  have "alternative_ends [AssertEnd] st \<noteq> [] \<longleftrightarrow> snd st = []" for st :: "nat \<times> string"
    by (cases st) simp
  then have "alternative_ends [Plus a, AssertEnd] (i, rest) \<noteq> [] \<longleftrightarrow>
        (\<exists>st\<in>set (plus_ends a i rest). snd st = [])"
    by (simp del: alternative_ends.simps add: alternative_ends.simps(2) [of "Plus a"])
  also have "\<dots> \<longleftrightarrow> (\<exists>j. (j, []) \<in> set (plus_ends a i rest))"
    by force
  finally show ?thesis
    by (simp only: plus_ends_reaches_end)
qed

lemma marker_alternative:
  "alternative_ends [AssertStart, One (Lit c)] (i, rest) \<noteq> [] \<longleftrightarrow>
     i = 0 \<and> rest \<noteq> [] \<and> hd rest = c"
  by (cases rest) auto

lemma search_from_iff:
  "search_from d i s \<longleftrightarrow> (\<exists>k\<le>length s. disjunction_ends d (i + k, drop k s) \<noteq> [])"
proof (induction s arbitrary: i)
  case Nil
  show ?case by simp
next
  case (Cons x xs)
  have "(\<exists>k\<le>length (x # xs). disjunction_ends d (i + k, drop k (x # xs)) \<noteq> []) \<longleftrightarrow>
        disjunction_ends d (i, x # xs) \<noteq> [] \<or>
        (\<exists>k\<le>length xs. disjunction_ends d (Suc i + k, drop k xs) \<noteq> [])"
    (is "?L \<longleftrightarrow> ?A \<or> ?B")
  proof
    assume ?L
    then obtain k where k: "k \<le> length (x # xs)" "disjunction_ends d (i + k, drop k (x # xs)) \<noteq> []"
      by blast
    show "?A \<or> ?B"
    proof (cases k)
      case 0
      with k show ?thesis by simp
    next
      case (Suc m)
      with k have "m \<le> length xs" "disjunction_ends d (Suc i + m, drop m xs) \<noteq> []"
        by simp_all
      then show ?thesis by blast
    qed
  next
    assume "?A \<or> ?B"
    then show ?L
    proof
      assume ?A
      then have "disjunction_ends d (i + 0, drop 0 (x # xs)) \<noteq> []" by simp
      then show ?L by blast
    next
      assume ?B
      then obtain m where "m \<le> length xs" "disjunction_ends d (Suc i + m, drop m xs) \<noteq> []"
        by blast
      then have "Suc m \<le> length (x # xs)" "disjunction_ends d (i + Suc m, drop (Suc m) (x # xs)) \<noteq> []"
        by simp_all
      then show ?L by blast
    qed
  qed
  then show ?case
    using Cons.IH [of "Suc i"] by simp
qed

lemma legalActionRegex_at:
  "disjunction_ends legalActionRegex (i, rest) \<noteq> [] \<longleftrightarrow>
     (i = 0 \<and> rest \<noteq> [] \<and> hd rest = CHR ''X'') \<or> (rest \<noteq> [] \<and> list_all is_digit rest)"
proof -
  have "disjunction_ends legalActionRegex (i, rest) \<noteq> [] \<longleftrightarrow>
        alternative_ends [AssertStart, One (Lit CHR ''X'')] (i, rest) \<noteq> [] \<or>
        alternative_ends [Plus (Range CHR ''0'' CHR ''9''), AssertEnd] (i, rest) \<noteq> []"
    unfolding disjunction_ends_def legalActionRegex_def by simp
  moreover have "is_digit = atom_matches (Range CHR ''0'' CHR ''9'')"
    by (rule ext) (simp only: is_digit_def)
  ultimately show ?thesis
    by (simp only: marker_alternative digits_alternative)
qed

lemma legalActionRegex_accepts:
  "regex_test legalActionRegex s \<longleftrightarrow>
     s \<noteq> [] \<and> (hd s = CHR ''X'' \<or> is_digit (last s))"
proof
  assume "regex_test legalActionRegex s"
  then obtain k where k: "k \<le> length s"
      "(k = 0 \<and> drop k s \<noteq> [] \<and> hd (drop k s) = CHR ''X'') \<or>
       (drop k s \<noteq> [] \<and> list_all is_digit (drop k s))"
    unfolding regex_test_def search_from_iff legalActionRegex_at by auto
  from k(2) show "s \<noteq> [] \<and> (hd s = CHR ''X'' \<or> is_digit (last s))"
  proof
    assume "k = 0 \<and> drop k s \<noteq> [] \<and> hd (drop k s) = CHR ''X''"
    then have "s \<noteq> []" "hd s = CHR ''X''" by auto
    then show ?thesis by simp
  next
    assume d: "drop k s \<noteq> [] \<and> list_all is_digit (drop k s)"
    then have "s \<noteq> []" by auto
    moreover have "last (drop k s) = last s"
      using d by simp
    moreover have "is_digit (last (drop k s))"
      using d by (metis last_in_set list_all_iff)
    ultimately show ?thesis by simp
  qed
next
  assume a: "s \<noteq> [] \<and> (hd s = CHR ''X'' \<or> is_digit (last s))"
  then have ne: "s \<noteq> []" by simp
  from a have "hd s = CHR ''X'' \<or> is_digit (last s)" by simp
  then have "\<exists>k\<le>length s. disjunction_ends legalActionRegex (0 + k, drop k s) \<noteq> []"
  proof
    assume "hd s = CHR ''X''"
    with ne have "disjunction_ends legalActionRegex (0 + 0, drop 0 s) \<noteq> []"
      by (simp add: legalActionRegex_at)
    then show ?thesis by blast
  next
    assume dg: "is_digit (last s)"
    have "drop (length s - 1) s = [last s]"
      using ne by (metis append_butlast_last_id append_eq_conv_conj length_butlast)
    with dg have "disjunction_ends legalActionRegex (0 + (length s - 1), drop (length s - 1) s) \<noteq> []"
      by (simp add: legalActionRegex_at)
    moreover have "length s - 1 \<le> length s" by simp
    ultimately show ?thesis by blast
  qed
  then show "regex_test legalActionRegex s"
    unfolding regex_test_def search_from_iff .
qed

subsection \<open>What the methods leave alone\<close>

text \<open>
  The pending \<open>ponder\<close> timers, the flag \<open>shouldPonder\<close> and the playouts issued by
  \<open>ponder\<close> are changed by \<open>ponder\<close> and by unmounting only; no method sets the flag.
\<close>

lemma takeAction_ponder:
  assumes "ends_in (takeAction ops a s) s'"
  shows "pending PonderTask s' = pending PonderTask s \<and> shouldPonder s' = shouldPonder s
         \<and> ponder_playouts s' = ponder_playouts s"
  using assms
  by (auto simp: takeAction_def Let_def setState_GridState_def render_def setTimeout_def
                 pending_def ponder_playouts_def
           split: option.splits sum.splits)

lemma onCellInputBlur_ponder:
  assumes "ends_in (onCellInputBlur ops r c v s) s'"
  shows "pending PonderTask s' = pending PonderTask s \<and> shouldPonder s' = shouldPonder s
         \<and> ponder_playouts s' = ponder_playouts s"
proof -
  have "s' = s \<or> (\<exists>a. ends_in (takeAction ops a s) s')"
    using assms by (auto simp: onCellInputBlur_def split: if_splits)
  then show ?thesis
    using takeAction_ponder by blast
qed

lemma Cell_onBlur_ponder:
  "pending PonderTask (Cell_onBlur ops r c v s) = pending PonderTask s
   \<and> shouldPonder (Cell_onBlur ops r c v s) = shouldPonder s
   \<and> ponder_playouts (Cell_onBlur ops r c v s) = ponder_playouts s"
proof (cases "onCellInputBlur ops r c v s")
  case (Returns s')
  then have "ends_in (onCellInputBlur ops r c v s) s'" by simp
  from onCellInputBlur_ponder [OF this] Returns show ?thesis
    by (simp add: Cell_onBlur_def pending_def ponder_playouts_def)
next
  case (Throws err s')
  then have "ends_in (onCellInputBlur ops r c v s) s'" by simp
  from onCellInputBlur_ponder [OF this] Throws show ?thesis
    by (simp add: Cell_onBlur_def pending_def ponder_playouts_def)
next
  case Hangs
  then show ?thesis
    by (simp add: Cell_onBlur_def pending_def ponder_playouts_def)
qed

lemma Cell_onChange_ponder:
  "pending PonderTask (Cell_onChange r c v s) = pending PonderTask s
   \<and> shouldPonder (Cell_onChange r c v s) = shouldPonder s
   \<and> ponder_playouts (Cell_onChange r c v s) = ponder_playouts s"
  by (simp add: Cell_onChange_def onCellInputChange_def pending_def ponder_playouts_def)

lemma componentWillUnmount_ponder:
  assumes "ends_in (componentWillUnmount ops s) s'"
  shows "pending PonderTask s' = pending PonderTask s \<and> \<not> shouldPonder s'
         \<and> ponder_playouts s' = ponder_playouts s"
  using assms
  by (auto simp: componentWillUnmount_def Let_def pending_def ponder_playouts_def
           split: option.splits)

lemma takeBotAction_ponder:
  assumes "ends_in (takeBotAction ops s) s'"
  shows "pending PonderTask s' = pending PonderTask s \<and> (shouldPonder s' \<longrightarrow> shouldPonder s)
         \<and> ponder_playouts s' = ponder_playouts s"
proof (cases "bot s")
  case None
  with assms show ?thesis
    by (auto simp: takeBotAction_def pending_def ponder_playouts_def split: list.splits)
next
  case (Some e)
  with assms obtain t0 ts e' n ts' where
    run: "clock s = t0 # ts" "playout_loop ops t0 MIN_PLAYOUTS_MS ts e 0 = Some (e', n, ts')"
    by (auto simp: takeBotAction_def split: option.splits list.splits)
  note bot = Some
  define s1 where "s1 = s\<lparr>bot := Some e', clock := ts',
                           calls := calls s @ replicate n (Playout TakeBotActionTask)\<rparr>"
  have s1: "pending PonderTask s1 = pending PonderTask s" "shouldPonder s1 = shouldPonder s"
    "ponder_playouts s1 = ponder_playouts s"
    by (simp_all add: s1_def pending_def ponder_playouts_def)
  show ?thesis
  proof (cases "get_best_action ops e'")
    case None
    with bot run assms have "s' = s1\<lparr>shouldPonder := False\<rparr>"
      by (simp add: takeBotAction_def s1_def)
    with s1 show ?thesis by (simp add: pending_def ponder_playouts_def)
  next
    case (Some edge)
    with bot run assms have "ends_in (takeAction ops (Some (action edge)) s1) s'"
      by (simp add: takeBotAction_def s1_def)
    from takeAction_ponder [OF this] s1 show ?thesis by simp
  qed
qed

lemma ponder_halts:
  assumes "\<not> shouldPonder s \<or> (\<exists>e. bot s = Some e \<and> is_finished ops e)"
  shows "\<exists>s'. ponder ops s = Returns s' \<and> pending PonderTask s' = pending PonderTask s
           \<and> \<not> shouldPonder s' \<and> ponder_playouts s' = ponder_playouts s
           \<and> state s' = state s \<and> calls s' = calls s"
  using assms
  by (auto simp: ponder_def pending_def ponder_playouts_def)

lemma ponder_cycle:
  assumes "ends_in (ponder ops s) s'"
  shows "(shouldPonder s' \<longrightarrow> shouldPonder s) \<and> pending PonderTask s' \<le> Suc (pending PonderTask s)"
proof (cases "\<not> shouldPonder s \<or> (\<exists>e. bot s = Some e \<and> is_finished ops e)")
  case True
  from ponder_halts [OF this] assms show ?thesis by auto
next
  case False
  then have sp: "shouldPonder s" by simp
  show ?thesis
  proof (cases "bot s")
    case None
    with sp assms show ?thesis by (simp add: ponder_def)
  next
    case (Some e)
    with False have nf: "\<not> is_finished ops e" by simp
    from assms sp Some nf obtain t0 ts e' n tf ts'' where
      run: "clock s = t0 # ts" "playout_loop ops t0 PONDER_MS ts e 0 = Some (e', n, tf # ts'')"
      by (auto simp: ponder_def split: option.splits list.splits)
    with assms sp Some nf show ?thesis
      by (simp add: ponder_def Let_def setState_winProb_def render_def setTimeout_def pending_def)
  qed
qed

lemma pending_remove:
  assumes "i < length (timers s)"
  shows "pending f (s\<lparr>timers := take i (timers s) @ drop (Suc i) (timers s)\<rparr>) =
         pending f s - (if fst (timers s ! i) = f then 1 else 0)"
proof -
  have "timers s = take i (timers s) @ timers s ! i # drop (Suc i) (timers s)"
    using assms by (rule id_take_nth_drop)
  then have "filter (\<lambda>p. fst p = f) (timers s) =
      filter (\<lambda>p. fst p = f) (take i (timers s)) @
      filter (\<lambda>p. fst p = f) [timers s ! i] @
      filter (\<lambda>p. fst p = f) (drop (Suc i) (timers s))"
    by (metis append_Cons append_Nil filter_append)
  then show ?thesis
    by (simp add: pending_def)
qed

lemma pending_positive:
  assumes "i < length (timers s)" "fst (timers s ! i) = f"
  shows "0 < pending f s"
proof -
  have "timers s ! i \<in> set (filter (\<lambda>p. fst p = f) (timers s))"
    using assms by simp
  then show ?thesis
    unfolding pending_def by (metis length_pos_if_in_set)
qed

lemma finish_ends:
  assumes "finish out = Some s''"
  obtains s' where "ends_in out s'" "pending f s'' = pending f s'"
    "shouldPonder s'' = shouldPonder s'" "ponder_playouts s'' = ponder_playouts s'"
  using assms
  by (cases out) (auto simp: finish_def pending_def ponder_playouts_def)

subsection \<open>Invariants of the event loop\<close>

lemma step_pending:
  assumes "step ops ev s = Some s'" "pending PonderTask s \<le> 1"
  shows "pending PonderTask s' \<le> 1"
proof (cases ev)
  case (Blur r c v)
  with assms show ?thesis using Cell_onBlur_ponder [of ops r c v s] by auto
next
  case (Change r c v)
  with assms show ?thesis using Cell_onChange_ponder [of r c v s] by auto
next
  case Unmount
  with assms have "finish (componentWillUnmount ops s) = Some s'" by simp
  then obtain s1 where "ends_in (componentWillUnmount ops s) s1"
      "pending PonderTask s' = pending PonderTask s1"
    by (rule finish_ends)
  with componentWillUnmount_ponder [of ops s s1] assms(2) show ?thesis by simp
next
  case (Timeout i)
  show ?thesis
  proof (cases "i < length (timers s)")
    case False
    with Timeout assms show ?thesis by simp
  next
    case True
    define s0 where "s0 = s\<lparr>timers := take i (timers s) @ drop (Suc i) (timers s)\<rparr>"
    from True Timeout assms(1) have "finish (run_task ops (fst (timers s ! i)) s0) = Some s'"
      by (simp add: s0_def)
    then obtain s1 where s1: "ends_in (run_task ops (fst (timers s ! i)) s0) s1"
        "pending PonderTask s' = pending PonderTask s1"
      by (rule finish_ends)
    have s0: "pending PonderTask s0 =
        pending PonderTask s - (if fst (timers s ! i) = PonderTask then 1 else 0)"
      unfolding s0_def using True by (rule pending_remove)
    show ?thesis
    proof (cases "fst (timers s ! i)")
      case PonderTask
      with s1 have "ends_in (ponder ops s0) s1" by simp
      from ponder_cycle [OF this] have "pending PonderTask s1 \<le> Suc (pending PonderTask s0)"
        by simp
      moreover have "0 < pending PonderTask s"
        using True PonderTask by (simp add: pending_positive)
      ultimately show ?thesis
        using s0 s1(2) PonderTask assms(2) by simp
    next
      case TakeBotActionTask
      with s1 have "ends_in (takeBotAction ops s0) s1" by simp
      from takeBotAction_ponder [OF this] s0 s1(2) TakeBotActionTask assms(2)
      show ?thesis by simp
    qed
  qed
qed

lemma step_halted:
  assumes "step ops ev s = Some s'" "pending PonderTask s = 0" "\<not> shouldPonder s"
  shows "pending PonderTask s' = 0 \<and> \<not> shouldPonder s'
         \<and> ponder_playouts s' = ponder_playouts s"
proof (cases ev)
  case (Blur r c v)
  with assms show ?thesis using Cell_onBlur_ponder [of ops r c v s] by auto
next
  case (Change r c v)
  with assms show ?thesis using Cell_onChange_ponder [of r c v s] by auto
next
  case Unmount
  with assms have "finish (componentWillUnmount ops s) = Some s'" by simp
  then obtain s1 where "ends_in (componentWillUnmount ops s) s1"
      "pending PonderTask s' = pending PonderTask s1" "shouldPonder s' = shouldPonder s1"
      "ponder_playouts s' = ponder_playouts s1"
    by (rule finish_ends)
  with componentWillUnmount_ponder [of ops s s1] assms(2) show ?thesis by simp
next
  case (Timeout i)
  show ?thesis
  proof (cases "i < length (timers s)")
    case False
    with Timeout assms show ?thesis by simp
  next
    case True
    define s0 where "s0 = s\<lparr>timers := take i (timers s) @ drop (Suc i) (timers s)\<rparr>"
    from True Timeout assms(1) have "finish (run_task ops (fst (timers s ! i)) s0) = Some s'"
      by (simp add: s0_def)
    then obtain s1 where s1: "ends_in (run_task ops (fst (timers s ! i)) s0) s1"
        "pending PonderTask s' = pending PonderTask s1" "shouldPonder s' = shouldPonder s1"
        "ponder_playouts s' = ponder_playouts s1"
      by (rule finish_ends)
    have s0: "pending PonderTask s0 = 0" "shouldPonder s0 = shouldPonder s"
        "ponder_playouts s0 = ponder_playouts s"
      using pending_remove [OF True, of PonderTask] assms(2)
      by (simp_all add: s0_def ponder_playouts_def)
    show ?thesis
    proof (cases "fst (timers s ! i)")
      case PonderTask
      with True have "0 < pending PonderTask s" by (simp add: pending_positive)
      with assms(2) show ?thesis by simp
    next
      case TakeBotActionTask
      with s1 have "ends_in (takeBotAction ops s0) s1" by simp
      from takeBotAction_ponder [OF this] s0 s1 assms(3)
      show ?thesis by simp
    qed
  qed
qed

lemma run_pending:
  assumes "run ops evs s = Some s'" "pending PonderTask s \<le> 1"
  shows "pending PonderTask s' \<le> 1"
  using assms
proof (induction evs arbitrary: s)
  case Nil
  then show ?case by simp
next
  case (Cons ev evs)
  from Cons.prems(1) obtain s1 where s1: "step ops ev s = Some s1" "run ops evs s1 = Some s'"
    by (auto split: option.splits)
  from step_pending [OF s1(1) Cons.prems(2)] Cons.IH [OF s1(2)] show ?case by simp
qed

lemma run_halted:
  assumes "run ops evs s = Some s'" "pending PonderTask s = 0" "\<not> shouldPonder s"
  shows "pending PonderTask s' = 0 \<and> \<not> shouldPonder s'
         \<and> ponder_playouts s' = ponder_playouts s"
  using assms
proof (induction evs arbitrary: s)
  case Nil
  then show ?case by simp
next
  case (Cons ev evs)
  from Cons.prems(1) obtain s1 where s1: "step ops ev s = Some s1" "run ops evs s1 = Some s'"
    by (auto split: option.splits)
  from step_halted [OF s1(1) Cons.prems(2,3)]
  have h: "pending PonderTask s1 = 0" "\<not> shouldPonder s1"
      "ponder_playouts s1 = ponder_playouts s"
    by simp_all
  from Cons.IH [OF s1(2) h(1,2)] h(3) show ?case by simp
qed

lemma mount_pending:
  assumes "mount ops nr nc readings = Some s"
  shows "pending PonderTask s \<le> 1"
proof -
  define c where "c = constructor ops nr nc readings"
  define s3 where "s3 = (setState_GridState
      (getGameState ops nr nc (Some (new ops nr nc HUMAN_PLAYER)))
      (c\<lparr>bot := Some (new ops nr nc HUMAN_PLAYER)\<rparr>))\<lparr>shouldPonder := True\<rparr>"
  have "componentDidMount ops c = ponder ops s3"
    by (simp add: componentDidMount_def s3_def c_def constructor_def Let_def)
  with assms have "finish (ponder ops s3) = Some s"
    by (simp add: mount_def c_def)
  then obtain s1 where s1: "ends_in (ponder ops s3) s1" "pending PonderTask s = pending PonderTask s1"
    by (rule finish_ends)
  have "pending PonderTask s3 = 0"
    by (simp add: s3_def c_def constructor_def setState_GridState_def render_def setTimeout_def
        pending_def)
  with ponder_cycle [OF s1(1)] s1(2) show ?thesis by simp
qed

lemma session_pending:
  assumes "session ops nr nc readings evs = Some s"
  shows "pending PonderTask s \<le> 1"
proof -
  from assms obtain s0 where "mount ops nr nc readings = Some s0" "run ops evs s0 = Some s"
    by (auto simp: session_def split: option.splits)
  then show ?thesis
    using mount_pending run_pending by blast
qed

subsection \<open>Rejected moves, rescheduling and the estimate\<close>

lemma takeAction_rejected:
  assumes "bot s = Some e" "place ops e (row a) (col a) (guess a) = Inl err"
  shows "takeAction ops (Some a) s =
           Throws err (s\<lparr>calls := calls s @ [Place (row a) (col a) (guess a)]\<rparr>)"
  using assms by (simp add: takeAction_def)

lemma takeAction_calls:
  assumes "bot s = Some e" "ends_in (takeAction ops (Some a) s) s'"
  shows "calls s' = calls s @ [Place (row a) (col a) (guess a)]"
  using assms
  by (auto simp: takeAction_def Let_def setState_GridState_def render_def setTimeout_def
           split: sum.splits)


lemma ponder_patches_winProb:
  assumes "ends_in (ponder ops s) s'"
  shows "state s' = state s \<or> state s' = (state s)\<lparr>winProb := getWinProb ops (bot s')\<rparr>"
proof (cases "\<not> shouldPonder s \<or> (\<exists>e. bot s = Some e \<and> is_finished ops e)")
  case True
  from ponder_halts [OF this] assms show ?thesis by auto
next
  case False
  then have sp: "shouldPonder s" by simp
  show ?thesis
  proof (cases "bot s")
    case None
    with sp assms show ?thesis by (simp add: ponder_def)
  next
    case (Some e)
    with False have nf: "\<not> is_finished ops e" by simp
    from assms sp Some nf obtain t0 ts e' n tf ts'' where
      run: "clock s = t0 # ts" "playout_loop ops t0 PONDER_MS ts e 0 = Some (e', n, tf # ts'')"
      by (auto simp: ponder_def split: option.splits list.splits)
    with assms sp Some nf show ?thesis
      by (auto simp: ponder_def Let_def setState_winProb_def render_def setTimeout_def)
  qed
qed

subsection \<open>Which committed texts reach the engine\<close>

text \<open>
  A text committed on an unfilled cell is forwarded to \<open>place\<close> exactly when it begins
  with \<open>X\<close> or ends in a digit; on a digit sequence \<open>parseInt\<close> is the double nearest
  to its decimal value, which is that value when it is below \<open>2 ^ 53\<close>.
\<close>

lemma digit_is_plain:
  assumes "is_digit c"
  shows "\<not> is_white_space c \<and> c \<noteq> CHR ''+'' \<and> c \<noteq> CHR ''-''"
  using assms by (auto simp: is_digit_def is_white_space_def)

lemma parseInt10_digits:
  assumes "s \<noteq> []" "list_all is_digit s"
  shows "parseInt10 s = to_double (real (digits_value 0 s))
         \<and> (digits_value 0 s < 2 ^ 53 \<longrightarrow> parseInt10 s = Fin (real (digits_value 0 s)))"
proof -
  from assms obtain c cs where s: "s = c # cs" by (cases s) auto
  with assms have c: "is_digit c" by simp
  from digit_is_plain [OF c] s have "dropWhile is_white_space s = s" by simp
  moreover have "takeWhile is_digit s = s"
    using assms(2) by (simp add: list_all_iff)
  ultimately have "parseInt10 s = to_double (real (digits_value 0 s))"
    using s assms(1) digit_is_plain [OF c] by (simp add: parseInt10_def Let_def)
  then show ?thesis
    by (simp add: to_double_nat)
qed

lemma committed_text_forwarding:
  assumes "bot s = Some e"
    and "r < length (grid (state s))" "c < length (grid (state s) ! r)"
    and "player (grid (state s) ! r ! c) = None"
    and "content s (r, c) = v"
  shows "calls (Cell_onBlur ops r c v s) =
           calls s @ (if v \<noteq> [] \<and> (hd v = CHR ''X'' \<or> is_digit (last v))
                      then [Place r c (if v = ''X'' then Fin 0 else parseInt10 v)] else [])"
proof (cases "regex_test legalActionRegex v")
  case False
  with assms(5) have "calls (Cell_onBlur ops r c v s) = calls s"
    by (simp add: Cell_onBlur_def)
  moreover from False have "\<not> (v \<noteq> [] \<and> (hd v = CHR ''X'' \<or> is_digit (last v)))"
    unfolding legalActionRegex_accepts .
  ultimately show ?thesis
    by (simp only: if_False append_Nil2)
next
  case True
  then have ne: "v \<noteq> []" and ok: "hd v = CHR ''X'' \<or> is_digit (last v)"
    by (simp_all add: legalActionRegex_accepts)
  define a where "a = \<lparr>row = r, col = c, guess = (if v = ''X'' then Fin 0 else parseInt10 v)\<rparr>"
  have blur: "onCellInputBlur ops r c v s = takeAction ops (Some a) s"
    using assms True ne by (simp add: onCellInputBlur_def a_def)
  have "calls (Cell_onBlur ops r c v s) = calls s @ [Place (row a) (col a) (guess a)]"
  proof (cases "takeAction ops (Some a) s")
    case (Returns s')
    then have "ends_in (takeAction ops (Some a) s) s'" by simp
    from takeAction_calls [OF assms(1) this] Returns blur True assms(5) show ?thesis
      by (simp add: Cell_onBlur_def)
  next
    case (Throws err s')
    then have "ends_in (takeAction ops (Some a) s) s'" by simp
    from takeAction_calls [OF assms(1) this] Throws blur True assms(5) show ?thesis
      by (simp add: Cell_onBlur_def)
  next
    case Hangs
    with assms(1) show ?thesis
      by (simp add: takeAction_def Let_def split: sum.splits)
  qed
  with ne ok show ?thesis by (simp add: a_def)
qed

subsection \<open>The example states are reached\<close>

lemma example_mounted_reached:
  "mount board_ops 1 2 [0, 1, 200, 300, 1330, 1331, 1600, 1700] = Some example_mounted"
  by (simp add: controller_defs board_defs example_mounted_def)

lemma example_moved_reached:
  "run board_ops [Change 0 0 ''3'', Blur 0 0 ''3''] example_mounted = Some example_moved"
  by (simp add: controller_defs board_defs regex_defs parse_defs example_mounted_def example_moved_def fun_upd_idem)

lemma example_unmounted_reached:
  "session board_ops 1 2 [0, 1, 200, 300, 1330, 1331, 1600, 1700] [Unmount] = Some example_unmounted"
  using example_mounted_reached
  by (simp add: session_def componentWillUnmount_def finish_def board_ops_def
      example_unmounted_def example_mounted_def)

lemma board_reports_finish: "reports_finish board_ops"
  by (simp add: reports_finish_def board_ops_def b_best_def)

subsection \<open>The snapshot mirrors the engine\<close>

lemma playout_loop_turn:
  assumes "keeps_turn ops" "playout_loop ops t0 budget ts e n = Some (e', n', ts')"
  shows "get_active_player ops e' = get_active_player ops e"
  using assms(2)
proof (induction ts arbitrary: e n)
  case Nil
  then show ?case by simp
next
  case (Cons t ts)
  show ?case
  proof (cases "t - t0 < budget")
    case True
    with Cons.prems have "playout_loop ops t0 budget ts (playout ops e) (Suc n) = Some (e', n', ts')"
      by simp
    from Cons.IH [OF this] assms(1) show ?thesis
      by (simp add: keeps_turn_def)
  next
    case False
    with Cons.prems show ?thesis by simp
  qed
qed

lemma getWinProb_human:
  "getWinProb ops (Some e) \<noteq> None \<Longrightarrow> get_active_player ops e = Some HUMAN_PLAYER"
  by (auto simp: getWinProb_def split: if_splits)

lemma takeAction_mirrors:
  assumes "mirrors ops s" "ends_in (takeAction ops a s) s'"
  shows "mirrors ops s'"
proof (cases a)
  case None
  with assms show ?thesis by (simp add: takeAction_def)
next
  case (Some act)
  show ?thesis
  proof (cases "bot s")
    case None
    with Some assms show ?thesis by (simp add: takeAction_def)
  next
    case bot: (Some e)
    show ?thesis
    proof (cases "place ops e (row act) (col act) (guess act)")
      case (Inl err)
      with Some bot assms(2) have "s' = s\<lparr>calls := calls s @ [Place (row act) (col act) (guess act)]\<rparr>"
        by (simp add: takeAction_def)
      with assms(1) show ?thesis by (simp add: mirrors_def)
    next
      case (Inr e')
      with Some bot assms(2) have s': "bot s' = Some e'"
          "state s' = getGameState ops (nrows s) (ncols s) (Some e')"
        by (simp_all add: takeAction_def Let_def setState_GridState_def render_def setTimeout_def)
      have "winProb (state s') \<noteq> None \<longrightarrow> get_active_player ops e' = Some HUMAN_PLAYER"
        using s'(2) getWinProb_human [of ops e'] by (simp add: getGameState_def)
      with s' show ?thesis
        by (simp add: mirrors_def getGameState_def)
    qed
  qed
qed

lemma Cell_onBlur_mirrors:
  assumes "mirrors ops s"
  shows "mirrors ops (Cell_onBlur ops r c v s)"
proof -
  have keep: "mirrors ops (x\<lparr>content := f\<rparr>) = mirrors ops x"
      "mirrors ops (x\<lparr>console := l\<rparr>) = mirrors ops x" for x :: "'a Grid" and f l
    by (simp_all add: mirrors_def)
  have blur: "mirrors ops s'" if "ends_in (onCellInputBlur ops r c v s) s'" for s'
  proof -
    from that have "s' = s \<or> (\<exists>a. ends_in (takeAction ops a s) s')"
      by (auto simp: onCellInputBlur_def split: if_splits)
    with assms takeAction_mirrors show ?thesis by blast
  qed
  show ?thesis
  proof (cases "onCellInputBlur ops r c v s")
    case (Returns s')
    with blur [of s'] assms show ?thesis by (simp add: Cell_onBlur_def keep)
  next
    case (Throws err s')
    with blur [of s'] assms show ?thesis by (simp add: Cell_onBlur_def keep)
  next
    case Hangs
    with assms show ?thesis by (simp add: Cell_onBlur_def keep)
  qed
qed

lemma Cell_onChange_mirrors:
  "mirrors ops (Cell_onChange r c v s) = mirrors ops s"
  by (simp add: Cell_onChange_def onCellInputChange_def mirrors_def)

lemma ponder_mirrors:
  assumes "keeps_turn ops" "mirrors ops s" "ends_in (ponder ops s) s'"
  shows "mirrors ops s'"
proof (cases "\<not> shouldPonder s \<or> (\<exists>e. bot s = Some e \<and> is_finished ops e)")
  case True
  from ponder_halts [OF this] assms(3) have "state s' = state s" "\<not> shouldPonder s'"
    by auto
  with assms(2) show ?thesis by (simp add: mirrors_def)
next
  case False
  then have sp: "shouldPonder s" by simp
  with assms(2) obtain e where e: "bot s = Some e" "activePlayer (state s) = get_active_player ops e"
    by (auto simp: mirrors_def)
  with False have nf: "\<not> is_finished ops e" by simp
  from assms(3) sp e nf obtain t0 ts e' n tf ts'' where
    run: "clock s = t0 # ts" "playout_loop ops t0 PONDER_MS ts e 0 = Some (e', n, tf # ts'')"
    by (auto simp: ponder_def split: option.splits list.splits)
  have turn: "get_active_player ops e' = get_active_player ops e"
    using assms(1) run(2) by (rule playout_loop_turn)
  from assms(3) sp e nf run have s': "bot s' = Some e'" "shouldPonder s'"
      "activePlayer (state s') = activePlayer (state s)"
      "winProb (state s') = getWinProb ops (Some e')"
    by (auto simp: ponder_def Let_def setState_winProb_def render_def setTimeout_def)
  have "winProb (state s') \<noteq> None \<longrightarrow> get_active_player ops e' = Some HUMAN_PLAYER"
    using s'(4) getWinProb_human [of ops e'] by simp
  with s' e turn show ?thesis
    by (simp add: mirrors_def)
qed

lemma takeBotAction_mirrors:
  assumes "keeps_turn ops" "mirrors ops s" "ends_in (takeBotAction ops s) s'"
  shows "mirrors ops s'"
proof (cases "bot s")
  case None
  with assms(3) obtain ts' where "s' = s\<lparr>clock := ts'\<rparr>"
    by (auto simp: takeBotAction_def split: list.splits)
  with assms(2) show ?thesis by (simp add: mirrors_def)
next
  case (Some e)
  with assms(3) obtain t0 ts e' n ts' where
    run: "clock s = t0 # ts" "playout_loop ops t0 MIN_PLAYOUTS_MS ts e 0 = Some (e', n, ts')"
    by (auto simp: takeBotAction_def split: option.splits list.splits)
  note bot = Some
  have turn: "get_active_player ops e' = get_active_player ops e"
    using assms(1) run(2) by (rule playout_loop_turn)
  define s1 where "s1 = s\<lparr>bot := Some e', clock := ts',
                           calls := calls s @ replicate n (Playout TakeBotActionTask)\<rparr>"
  have s1: "mirrors ops s1"
    using assms(2) bot turn by (auto simp: mirrors_def s1_def)
  show ?thesis
  proof (cases "get_best_action ops e'")
    case None
    with bot run assms(3) have "s' = s1\<lparr>shouldPonder := False\<rparr>"
      by (simp add: takeBotAction_def s1_def)
    with s1 show ?thesis by (simp add: mirrors_def)
  next
    case (Some edge)
    with bot run assms(3) have "ends_in (takeAction ops (Some (action edge)) s1) s'"
      by (simp add: takeBotAction_def s1_def)
    with s1 show ?thesis by (rule takeAction_mirrors)
  qed
qed

lemma finish_mirrors:
  assumes "finish out = Some s''" "\<And>s'. ends_in out s' \<Longrightarrow> mirrors ops s'"
  shows "mirrors ops s''"
  using assms by (cases out) (auto simp: finish_def mirrors_def)

lemma step_mirrors:
  assumes "keeps_turn ops" "mirrors ops s" "step ops ev s = Some s'"
  shows "mirrors ops s'"
proof (cases ev)
  case (Blur r c v)
  with assms show ?thesis using Cell_onBlur_mirrors [of ops s r c v] by auto
next
  case (Change r c v)
  with assms show ?thesis by (auto simp: Cell_onChange_mirrors)
next
  case Unmount
  with assms(3) have "finish (componentWillUnmount ops s) = Some s'" by simp
  moreover have "mirrors ops x" if "ends_in (componentWillUnmount ops s) x" for x
    using that assms(2)
    by (auto simp: componentWillUnmount_def Let_def mirrors_def split: option.splits)
  ultimately show ?thesis by (rule finish_mirrors)
next
  case (Timeout i)
  show ?thesis
  proof (cases "i < length (timers s)")
    case False
    with Timeout assms show ?thesis by simp
  next
    case True
    define s0 where "s0 = s\<lparr>timers := take i (timers s) @ drop (Suc i) (timers s)\<rparr>"
    have s0: "mirrors ops s0"
      using assms(2) by (simp add: mirrors_def s0_def)
    from True Timeout assms(3) have "finish (run_task ops (fst (timers s ! i)) s0) = Some s'"
      by (simp add: s0_def)
    moreover have "mirrors ops x" if "ends_in (run_task ops (fst (timers s ! i)) s0) x" for x
      using that ponder_mirrors [OF assms(1) s0] takeBotAction_mirrors [OF assms(1) s0]
      by (cases "fst (timers s ! i)") auto
    ultimately show ?thesis by (rule finish_mirrors)
  qed
qed

lemma run_mirrors:
  assumes "keeps_turn ops" "mirrors ops s" "run ops evs s = Some s'"
  shows "mirrors ops s'"
  using assms(2,3)
proof (induction evs arbitrary: s)
  case Nil
  then show ?case by simp
next
  case (Cons ev evs)
  from Cons.prems(2) obtain s1 where s1: "step ops ev s = Some s1" "run ops evs s1 = Some s'"
    by (auto split: option.splits)
  from step_mirrors [OF assms(1) Cons.prems(1) s1(1)] s1(2) show ?case
    by (rule Cons.IH)
qed

lemma mount_mirrors:
  assumes "keeps_turn ops" "mount ops nr nc readings = Some s"
  shows "mirrors ops s"
proof -
  define e where "e = new ops nr nc HUMAN_PLAYER"
  define s3 where "s3 = (setState_GridState (getGameState ops nr nc (Some e))
      ((constructor ops nr nc readings)\<lparr>bot := Some e\<rparr>))\<lparr>shouldPonder := True\<rparr>"
  have "componentDidMount ops (constructor ops nr nc readings) = ponder ops s3"
    by (simp add: componentDidMount_def s3_def e_def constructor_def Let_def)
  with assms(2) have fin: "finish (ponder ops s3) = Some s"
    by (simp add: mount_def)
  have s3: "bot s3 = Some e" "state s3 = getGameState ops nr nc (Some e)"
    by (simp_all add: s3_def setState_GridState_def render_def setTimeout_def)
  have "winProb (state s3) \<noteq> None \<longrightarrow> get_active_player ops e = Some HUMAN_PLAYER"
    using s3(2) getWinProb_human [of ops e] by (simp add: getGameState_def)
  with s3 have "mirrors ops s3"
    by (simp add: mirrors_def getGameState_def)
  with fin show ?thesis
    using ponder_mirrors [OF assms(1)] finish_mirrors by blast
qed

lemma session_mirrors:
  assumes "keeps_turn ops" "session ops nr nc readings evs = Some s"
  shows "winProb (state s) \<noteq> None \<longrightarrow> activePlayer (state s) = Some HUMAN_PLAYER"
proof -
  from assms(2) obtain s0 where "mount ops nr nc readings = Some s0" "run ops evs s0 = Some s"
    by (auto simp: session_def split: option.splits)
  with assms(1) have "mirrors ops s"
    using mount_mirrors run_mirrors by blast
  then show ?thesis by (simp add: mirrors_def)
qed

lemma board_keeps_turn: "keeps_turn board_ops"
  by (simp add: keeps_turn_def board_ops_def)

subsection \<open>An engine whose recommendations are legal\<close>











section \<open>The claims\<close>

text \<open>
  Claim C1 says that a committed text reaches \<open>place\<close> only if it is \<open>X\<close> or a digit
  sequence.  The code forwards the mixed text \<open>a1\<close>: the test accepts it because it ends
  in a digit, \<open>parseInt\<close> gives \<open>NaN\<close>, and \<open>place\<close> is called with \<open>NaN\<close>.  The
  theorem runs the two handlers of the cell \<open>(0, 0)\<close> on \<open>example_mounted\<close>.
\<close>

theorem mixed_token_reaches_place:
  "regex_test legalActionRegex ''a1''
   \<and> parseInt10 ''a1'' = NaN
   \<and> calls (Cell_onBlur board_ops 0 0 ''a1'' (Cell_onChange 0 0 ''a1'' example_mounted))
       = calls example_mounted @ [Place 0 0 NaN]"
  by (simp add: controller_defs board_defs regex_defs parse_defs example_mounted_def)

text \<open>
  Claim C2: a blur on a cell that is filled in the current snapshot is a no-op.
  \<open>onCellInputBlur\<close> returns the component unchanged, and after \<open>Cell.onBlur\<close> the
  snapshot (so the active player), the engine, the engine calls, the timers, the console
  and \<open>shouldPonder\<close> are what they were: \<open>place\<close> is not called.
\<close>

theorem blur_on_filled_cell_is_noop:
  assumes "r < length (grid (state s))" "c < length (grid (state s) ! r)"
    and "player (grid (state s) ! r ! c) \<noteq> None"
  shows "onCellInputBlur ops r c v s = Returns s
         \<and> state (Cell_onBlur ops r c v s) = state s
         \<and> activePlayer (state (Cell_onBlur ops r c v s)) = activePlayer (state s)
         \<and> calls (Cell_onBlur ops r c v s) = calls s
         \<and> bot (Cell_onBlur ops r c v s) = bot s
         \<and> timers (Cell_onBlur ops r c v s) = timers s
         \<and> console (Cell_onBlur ops r c v s) = console s
         \<and> shouldPonder (Cell_onBlur ops r c v s) = shouldPonder s"
  using assms by (simp add: onCellInputBlur_def Cell_onBlur_def)

text \<open>
  An instance of C2: the cell \<open>(0, 0)\<close> of \<open>example_moved\<close> is filled, and a blur with
  the text 4 changes nothing.
\<close>

theorem blur_on_filled_cell_is_noop_witness:
  "player (grid (state example_moved) ! 0 ! 0) = Some 0
   \<and> onCellInputBlur board_ops 0 0 ''4'' example_moved = Returns example_moved
   \<and> state (Cell_onBlur board_ops 0 0 ''4'' example_moved) = state example_moved
   \<and> calls (Cell_onBlur board_ops 0 0 ''4'' example_moved) = calls example_moved"
  using blur_on_filled_cell_is_noop
          [where r = 0 and c = 0 and s = example_moved and ops = board_ops and v = "''4''"]
  by (simp add: example_moved_def)






text \<open>
  Claim C5.  An estimate computed by \<open>getWinProb\<close> is present only if the engine exists,
  its active player is the human and \<open>get_best_action\<close> yields a recommendation; the
  session is then not finished for every engine that reports a finished session
  (\<open>reports_finish\<close>).  A snapshot built by \<open>getGameState\<close> with an estimate has the
  human as its active player.  Without a recommendation the estimate is absent
  (\<open>None\<close>, not zero).  A pondering cycle leaves the snapshot alone or replaces its
  estimate by \<open>getWinProb\<close> of the engine as it then is.  In every state of a session
  with an engine whose playouts keep the turn (\<open>keeps_turn\<close>), a snapshot with an
  estimate has the human as its active player.
\<close>

theorem winProb_only_for_human:
  "(getWinProb ops b = Some p \<longrightarrow>
      (\<exists>e. b = Some e \<and> get_active_player ops e = Some HUMAN_PLAYER
           \<and> get_best_action ops e \<noteq> None
           \<and> (reports_finish ops \<longrightarrow> \<not> is_finished ops e)))
   \<and> (winProb (getGameState ops nr nc b) \<noteq> None \<longrightarrow>
        activePlayer (getGameState ops nr nc b) = Some HUMAN_PLAYER)
   \<and> (get_best_action ops e0 = None \<longrightarrow> getWinProb ops (Some e0) = None)
   \<and> (ends_in (ponder ops s) s' \<longrightarrow>
        state s' = state s \<or> state s' = (state s)\<lparr>winProb := getWinProb ops (bot s')\<rparr>)
   \<and> (keeps_turn ops \<and> session ops rows cols readings evs = Some u
        \<and> winProb (state u) \<noteq> None \<longrightarrow>
        activePlayer (state u) = Some HUMAN_PLAYER)"
proof (intro conjI impI)
  assume "getWinProb ops b = Some p"
  then obtain e where e: "b = Some e" "get_active_player ops e = Some HUMAN_PLAYER"
      "get_best_action ops e \<noteq> None"
    by (auto simp: getWinProb_def split: option.splits if_splits)
  then have "reports_finish ops \<longrightarrow> \<not> is_finished ops e"
    by (auto simp: reports_finish_def)
  with e show "\<exists>e. b = Some e \<and> get_active_player ops e = Some HUMAN_PLAYER
           \<and> get_best_action ops e \<noteq> None
           \<and> (reports_finish ops \<longrightarrow> \<not> is_finished ops e)"
    by blast
next
  assume "winProb (getGameState ops nr nc b) \<noteq> None"
  then show "activePlayer (getGameState ops nr nc b) = Some HUMAN_PLAYER"
    by (auto simp: getGameState_def getWinProb_def split: option.splits if_splits)
next
  assume "get_best_action ops e0 = None"
  then show "getWinProb ops (Some e0) = None"
    by (simp add: getWinProb_def)
next
  assume "ends_in (ponder ops s) s'"
  then show "state s' = state s \<or> state s' = (state s)\<lparr>winProb := getWinProb ops (bot s')\<rparr>"
    by (rule ponder_patches_winProb)
next
  assume "keeps_turn ops \<and> session ops rows cols readings evs = Some u
        \<and> winProb (state u) \<noteq> None"
  then show "activePlayer (state u) = Some HUMAN_PLAYER"
    using session_mirrors [of ops rows cols readings evs u] by simp
qed

text \<open>
  An instance of C5: the estimate of \<open>example_mounted\<close> is 3/4 on the human's turn of an
  unfinished board, and an engine state without visits has no recommendation and no
  estimate.
\<close>

theorem winProb_only_for_human_witness:
  "reports_finish board_ops
   \<and> getWinProb board_ops (bot example_mounted) = Some (Fin (3 / 4))
   \<and> (\<exists>e. bot example_mounted = Some e
         \<and> get_active_player board_ops e = Some HUMAN_PLAYER
         \<and> get_best_action board_ops e \<noteq> None
         \<and> \<not> is_finished board_ops e)
   \<and> winProb (getGameState board_ops 1 2 (bot example_mounted)) = Some (Fin (3 / 4))
   \<and> activePlayer (getGameState board_ops 1 2 (bot example_mounted)) = Some HUMAN_PLAYER
   \<and> get_best_action board_ops
        \<lparr>b_rows = 1, b_cols = 2, b_cells = [], b_active = 0, b_total = 0, b_visits = 0\<rparr> = None
   \<and> getWinProb board_ops
        (Some \<lparr>b_rows = 1, b_cols = 2, b_cells = [], b_active = 0, b_total = 0, b_visits = 0\<rparr>)
       = None
   \<and> ends_in (ponder board_ops example_unmounted) example_unmounted
   \<and> keeps_turn board_ops
   \<and> session board_ops 1 2 [0, 1, 200, 300, 1330, 1331, 1600, 1700] [] = Some example_mounted
   \<and> winProb (state example_mounted) = Some (Fin (3 / 4))
   \<and> activePlayer (state example_mounted) = Some HUMAN_PLAYER"
  using winProb_only_for_human
          [where ops = board_ops and b = "bot example_mounted" and p = "Fin (3 / 4)"
             and nr = 1 and nc = 2
             and ?e0.0 = "\<lparr>b_rows = 1, b_cols = 2, b_cells = [], b_active = 0, b_total = 0, b_visits = 0\<rparr>"
             and s = example_unmounted and s' = example_unmounted
             and rows = 1 and cols = 2 and readings = "[0, 1, 200, 300, 1330, 1331, 1600, 1700]"
             and evs = "[]" and u = example_mounted]
        board_reports_finish board_keeps_turn example_mounted_reached
  by (simp add: session_def getGameState_def getWinProb_def ponder_def HUMAN_PLAYER_def
      board_defs to_double_values example_mounted_def example_unmounted_def)

text \<open>
  Claim C6.  A present estimate is \<open>(1 + score / Number(visits)) / 2\<close> of the current
  recommendation of the engine, in the arithmetic of doubles.  For a recommendation that
  is normalised as the spec assumes (\<open>normalised\<close>: at least one visit and a finite score
  between \<open>- visits\<close> and \<open>visits\<close>) the estimate is a finite number between 0 and 1:
  rounding to the nearest double does not leave the interval.
\<close>

theorem winProb_formula:
  assumes "getWinProb ops b = Some p"
  shows "\<exists>e edge. b = Some e \<and> get_best_action ops e = Some edge
           \<and> p = js_half (js_one_plus (js_div_count (score edge) (visits edge)))
           \<and> (normalised edge \<longrightarrow> (\<exists>y. p = Fin y \<and> 0 \<le> y \<and> y \<le> 1))"
proof -
  from assms obtain e edge where e: "b = Some e" "get_best_action ops e = Some edge"
      "p = js_half (js_one_plus (js_div_count (score edge) (visits edge)))"
    by (auto simp: getWinProb_def split: option.splits if_splits)
  have "\<exists>y. p = Fin y \<and> 0 \<le> y \<and> y \<le> 1" if "normalised edge"
  proof -
    from that obtain x where x: "score edge = Fin x" "0 < visits edge" "\<bar>x\<bar> \<le> real (visits edge)"
      by (auto simp: normalised_def split: number.splits)
    from estimate_in_unit_interval [OF x(2,3)] e(3) x(1) show ?thesis by simp
  qed
  with e show ?thesis by blast
qed

text \<open>
  An instance of C6: in \<open>example_mounted\<close> the recommendation has half a point in one
  visit, which is normalised, and the estimate is 3/4.
\<close>

theorem winProb_formula_witness:
  "getWinProb board_ops (bot example_mounted) = Some (Fin (3 / 4))
   \<and> (\<exists>e edge. bot example_mounted = Some e \<and> get_best_action board_ops e = Some edge
         \<and> score edge = Fin (1 / 2) \<and> visits edge = 1
         \<and> Fin (3 / 4) = js_half (js_one_plus (js_div_count (score edge) (visits edge)))
         \<and> normalised edge)
   \<and> (0 :: real) \<le> 3 / 4 \<and> (3 / 4 :: real) \<le> 1"
  using winProb_formula [where ops = board_ops and b = "bot example_mounted" and p = "Fin (3 / 4)"]
  by (simp add: controller_defs board_defs normalised_def example_mounted_def)

text \<open>
  Claim C7.  In a session, when the timer of a pondering cycle fires and the cycle finds
  \<open>shouldPonder\<close> false or the engine finished, the cycle returns, and in every
  continuation of the session no \<open>ponder\<close> timer is pending, \<open>shouldPonder\<close> is false and
  \<open>ponder\<close> has issued no further playout.
\<close>

theorem ponder_halt_is_final:
  assumes reach: "session ops nr nc readings evs = Some s"
    and fires: "i < length (timers s)" "fst (timers s ! i) = PonderTask"
    and stop: "\<not> shouldPonder s \<or> (\<exists>e. bot s = Some e \<and> is_finished ops e)"
  shows "\<exists>s1. step ops (Timeout i) s = Some s1 \<and>
           (\<forall>evs' s2. run ops evs' s1 = Some s2 \<longrightarrow>
              pending PonderTask s2 = 0 \<and> \<not> shouldPonder s2
              \<and> ponder_playouts s2 = ponder_playouts s)"
proof -
  define s0 where "s0 = s\<lparr>timers := take i (timers s) @ drop (Suc i) (timers s)\<rparr>"
  have le: "pending PonderTask s \<le> 1"
    using reach by (rule session_pending)
  have pos: "0 < pending PonderTask s"
    using fires by (rule pending_positive)
  have s0: "pending PonderTask s0 = 0"
    using pending_remove [OF fires(1), of PonderTask] fires(2) le by (simp add: s0_def)
  have "\<not> shouldPonder s0 \<or> (\<exists>e. bot s0 = Some e \<and> is_finished ops e)"
    using stop by (simp add: s0_def)
  from ponder_halts [OF this] obtain s1 where s1: "ponder ops s0 = Returns s1"
      "pending PonderTask s1 = pending PonderTask s0" "\<not> shouldPonder s1"
      "ponder_playouts s1 = ponder_playouts s0"
    by blast
  have st: "step ops (Timeout i) s = Some s1"
    using fires s1(1) by (simp add: s0_def finish_def)
  have pp: "ponder_playouts s0 = ponder_playouts s"
    by (simp add: s0_def ponder_playouts_def)
  have "pending PonderTask s2 = 0 \<and> \<not> shouldPonder s2 \<and> ponder_playouts s2 = ponder_playouts s"
    if "run ops evs' s1 = Some s2" for evs' s2
    using run_halted [OF that] s1 s0 pp by simp
  with st show ?thesis by blast
qed

text \<open>
  An instance of C7: after unmounting, the pending cycle of \<open>example_unmounted\<close> halts
  for good.
\<close>

theorem ponder_halt_is_final_witness:
  "session board_ops 1 2 [0, 1, 200, 300, 1330, 1331, 1600, 1700] [Unmount] = Some example_unmounted
   \<and> timers example_unmounted ! 0 = (PonderTask, PONDER_INTERVAL)
   \<and> \<not> shouldPonder example_unmounted
   \<and> (\<exists>s1. step board_ops (Timeout 0) example_unmounted = Some s1 \<and>
          (\<forall>evs' s2. run board_ops evs' s1 = Some s2 \<longrightarrow>
             pending PonderTask s2 = 0 \<and> \<not> shouldPonder s2
             \<and> ponder_playouts s2 = ponder_playouts example_unmounted))"
  using ponder_halt_is_final
          [where ops = board_ops and nr = 1 and nc = 2
             and readings = "[0, 1, 200, 300, 1330, 1331, 1600, 1700]" and evs = "[Unmount]"
             and s = example_unmounted and i = 0]
        example_unmounted_reached
  by (simp add: example_unmounted_def example_mounted_def PONDER_INTERVAL_def)

text \<open>
  Claim C8.  If the time-boxed loop of \<open>takeBotAction\<close> ends and \<open>get_best_action\<close> then
  yields nothing, \<open>takeBotAction\<close> returns with \<open>shouldPonder\<close> false; it has called
  \<open>place\<close> no more often than before and has left the snapshot and the timers alone.
  \<open>is_finished\<close> is not asked.
\<close>

theorem agent_without_recommendation_stops:
  assumes "bot s = Some e" "clock s = t0 # ts"
    and "playout_loop ops t0 MIN_PLAYOUTS_MS ts e 0 = Some (e', n, ts')"
    and "get_best_action ops e' = None"
  shows "\<exists>s'. takeBotAction ops s = Returns s'
           \<and> \<not> shouldPonder s'
           \<and> placements s' = placements s
           \<and> calls s' = calls s @ replicate n (Playout TakeBotActionTask)
           \<and> state s' = state s
           \<and> timers s' = timers s"
  using assms by (simp add: takeBotAction_def placements_def)

text \<open>
  An instance of C8: in \<open>example_moved\<close> with a clock that allows no playout, the engine
  is not finished and has no recommendation.
\<close>

theorem agent_without_recommendation_stops_witness:
  "bot (example_moved\<lparr>clock := [1330, 1600]\<rparr>) =
     Some \<lparr>b_rows = 1, b_cols = 2,
           b_cells = [((0, 0), \<lparr>cguess = Some 3, player = Some 0\<rparr>)],
           b_active = 1, b_total = 0, b_visits = 0\<rparr>
   \<and> \<not> is_finished board_ops
         \<lparr>b_rows = 1, b_cols = 2,
          b_cells = [((0, 0), \<lparr>cguess = Some 3, player = Some 0\<rparr>)],
          b_active = 1, b_total = 0, b_visits = 0\<rparr>
   \<and> get_best_action board_ops
         \<lparr>b_rows = 1, b_cols = 2,
          b_cells = [((0, 0), \<lparr>cguess = Some 3, player = Some 0\<rparr>)],
          b_active = 1, b_total = 0, b_visits = 0\<rparr> = None
   \<and> (\<exists>s'. takeBotAction board_ops (example_moved\<lparr>clock := [1330, 1600]\<rparr>) = Returns s'
          \<and> \<not> shouldPonder s'
          \<and> placements s' = placements (example_moved\<lparr>clock := [1330, 1600]\<rparr>)
          \<and> calls s' = calls (example_moved\<lparr>clock := [1330, 1600]\<rparr>)
          \<and> state s' = state (example_moved\<lparr>clock := [1330, 1600]\<rparr>)
          \<and> timers s' = timers (example_moved\<lparr>clock := [1330, 1600]\<rparr>))"
  using agent_without_recommendation_stops
          [where ops = board_ops and s = "example_moved\<lparr>clock := [1330, 1600]\<rparr>"
             and e = "\<lparr>b_rows = 1, b_cols = 2,
                        b_cells = [((0, 0), \<lparr>cguess = Some 3, player = Some 0\<rparr>)],
                        b_active = 1, b_total = 0, b_visits = 0\<rparr>"
             and ?t0.0 = 1330 and ts = "[1600]"
             and e' = "\<lparr>b_rows = 1, b_cols = 2,
                        b_cells = [((0, 0), \<lparr>cguess = Some 3, player = Some 0\<rparr>)],
                        b_active = 1, b_total = 0, b_visits = 0\<rparr>"
             and n = 0 and ts' = "[]"]
  by (simp add: board_defs example_moved_def MIN_PLAYOUTS_MS_def)

text \<open>
  Claim C9 says that a committed text is forwarded if and only if it is \<open>X\<close> or a digit
  sequence, with its decimal value.  The code forwards \<open>1.5\<close>, which is neither, with the
  value 1, and the example engine fills the cell with it.
\<close>

theorem decimal_point_token_is_placed:
  "regex_test legalActionRegex ''1.5''
   \<and> parseInt10 ''1.5'' = Fin 1
   \<and> calls (Cell_onBlur board_ops 0 0 ''1.5'' (Cell_onChange 0 0 ''1.5'' example_mounted))
       = calls example_mounted @ [Place 0 0 (Fin 1)]
   \<and> grid (state (Cell_onBlur board_ops 0 0 ''1.5'' (Cell_onChange 0 0 ''1.5'' example_mounted)))
       = [[\<lparr>cguess = Some 1, player = Some 0\<rparr>, \<lparr>cguess = None, player = None\<rparr>]]"
  by (simp add: controller_defs board_defs regex_defs parse_defs example_mounted_def)

text \<open>
  Claim C10.  A change event stores the typed text in the cell and writes a line to the
  console if the text fails the test; the snapshot, the engine, the engine calls, the
  timers and \<open>shouldPonder\<close> stay as they were.  A text that fails the test is dropped
  only by the blur that follows.
\<close>

theorem change_only_stores_text:
  "state (Cell_onChange r c v s) = state s
   \<and> bot (Cell_onChange r c v s) = bot s
   \<and> calls (Cell_onChange r c v s) = calls s
   \<and> shouldPonder (Cell_onChange r c v s) = shouldPonder s
   \<and> timers (Cell_onChange r c v s) = timers s
   \<and> content (Cell_onChange r c v s) = (content s)((r, c) := v)
   \<and> console (Cell_onChange r c v s) =
       console s @ (if regex_test legalActionRegex v then [] else [LogFailedRegex v])
   \<and> (\<not> regex_test legalActionRegex v \<longrightarrow>
        calls (Cell_onBlur ops r c v (Cell_onChange r c v s)) = calls s)"
  by (simp add: Cell_onChange_def onCellInputChange_def Cell_onBlur_def)

text \<open>
  An instance of C10: the text \<open>1a\<close> fails the test, is stored and logged, and a blur
  then calls nothing.
\<close>

theorem change_only_stores_text_witness:
  "\<not> regex_test legalActionRegex ''1a''
   \<and> content (Cell_onChange 0 0 ''1a'' example_mounted) (0, 0) = ''1a''
   \<and> console (Cell_onChange 0 0 ''1a'' example_mounted)
       = [LogPlayouts 1 300, LogFailedRegex ''1a'']
   \<and> state (Cell_onChange 0 0 ''1a'' example_mounted) = state example_mounted
   \<and> bot (Cell_onChange 0 0 ''1a'' example_mounted) = bot example_mounted
   \<and> calls (Cell_onBlur board_ops 0 0 ''1a'' (Cell_onChange 0 0 ''1a'' example_mounted))
       = [Playout PonderTask]"
  using change_only_stores_text [of 0 0 "''1a''" example_mounted board_ops]
  by (simp add: legalActionRegex_accepts is_digit_def example_mounted_def)

end
